theory Spec2Isabelle
  imports Complex_Main "HOL-Library.Product_Lexorder"
begin

section \<open>Data model\<close>

text \<open>
  Coordinates and sizes are Python floats (the type annotations of \<open>Item\<close>, \<open>Bin\<close> and
  of the packing code say \<open>float\<close>). A double is modelled by the real number it denotes,
  and every \<open>+\<close>, \<open>-\<close> and \<open>*\<close> of the code returns the exact result rounded to a double:
  the rounding is the parameter \<open>rnd\<close> of the model, written at every arithmetic operation
  of the source. Comparisons, \<open>min\<close>, \<open>max\<close> and the unary minus are exact on doubles.
  What is proved for every \<open>rnd\<close> holds of the code whatever it rounds; \<open>exact\<close> is the
  arithmetic of a run in which no result is rounded, as in the scenarios on small
  integers.

  An \<open>Item\<close> is a mutable object shared between the caller's item list and the item
  lists of the bins, so the items live in a store (a list indexed by object reference)
  and a bin's item list holds references. Only the fields read or written by the 2D
  packing code are kept: \<open>set_position\<close> writes \<open>x\<close> and \<open>y\<close> (it is never called with
  a \<open>z\<close> by that code), the placement code reads \<open>width\<close>, \<open>height\<close>, \<open>depth\<close>.
\<close>

type_synonym rounding = "real \<Rightarrow> real"

definition exact :: rounding where
  "exact x = x"

record item =
  item_id :: string
  item_width :: real
  item_height :: real
  item_depth :: "real option"
  item_x :: real
  item_y :: real

type_synonym ref = nat
type_synonym store = "item list"

text \<open>\<open>Item.__init__\<close>: the position starts at (0.0, 0.0).\<close>

definition Item :: "string \<Rightarrow> real \<Rightarrow> real \<Rightarrow> item" where
  "Item i w h =
     \<lparr>item_id = i, item_width = w, item_height = h, item_depth = None, item_x = 0, item_y = 0\<rparr>"

text \<open>\<open>Item.set_position(x, y)\<close>.\<close>

definition set_position :: "item \<Rightarrow> real \<Rightarrow> real \<Rightarrow> item" where
  "set_position it x y = it\<lparr>item_x := x, item_y := y\<rparr>"

text \<open>A free rectangle is the tuple \<open>(x, y, width, height)\<close>.\<close>

type_synonym rect = "real \<times> real \<times> real \<times> real"

text \<open>
  A bin has no \<open>free_rectangles\<close> attribute until \<open>MaxRects2D.pack\<close> assigns one:
  the field is None until then.
\<close>

record bin =
  bin_id :: string
  bin_width :: real
  bin_height :: real
  bin_depth :: "real option"
  items :: "ref list"
  free_rectangles :: "rect list option"

text \<open>\<open>Bin.__init__\<close>: a new bin has an empty item list.\<close>

definition Bin :: "string \<Rightarrow> real \<Rightarrow> real \<Rightarrow> real option \<Rightarrow> bin" where
  "Bin i w h d =
     \<lparr>bin_id = i, bin_width = w, bin_height = h, bin_depth = d, items = [],
      free_rectangles = None\<rparr>"

text \<open>\<open>Bin.can_fit\<close>.\<close>

definition can_fit :: "bin \<Rightarrow> item \<Rightarrow> bool" where
  "can_fit b it =
     (case bin_depth b of
        Some bd \<Rightarrow>
          (case item_depth it of
             None \<Rightarrow> False
           | Some d \<Rightarrow> item_width it \<le> bin_width b \<and> item_height it \<le> bin_height b \<and> d \<le> bd)
      | None \<Rightarrow> item_width it \<le> bin_width b \<and> item_height it \<le> bin_height b)"

text \<open>\<open>Bin.add_item\<close>: the updated bin and the returned flag.\<close>

definition add_item :: "store \<Rightarrow> bin \<Rightarrow> ref \<Rightarrow> bin \<times> bool" where
  "add_item st b r =
     (if can_fit b (st ! r) then (b\<lparr>items := items b @ [r]\<rparr>, True) else (b, False))"

text \<open>
  The identifier of an overflow bin is the f-string \<open>bin_{len(bins) + 1}\<close>:
  the decimal digits of a natural number.
\<close>

fun str_nat :: "nat \<Rightarrow> string" where
  "str_nat n =
     (if n < 10 then [char_of (48 + n)] else str_nat (n div 10) @ [char_of (48 + n mod 10)])"

declare str_nat.simps [simp del]

text \<open>
  Both errors are Python's \<open>ValueError\<close>: no base bin to clone, and an unknown
  heuristic name (with the configured name).
\<close>

datatype error = NoBaseBin | UnknownHeuristic string

section \<open>BottomLeft2D\<close>

definition rectangles_overlap ::
  "rounding \<Rightarrow> real \<Rightarrow> real \<Rightarrow> real \<Rightarrow> real \<Rightarrow> real \<Rightarrow> real \<Rightarrow> real \<Rightarrow> real \<Rightarrow> bool" where
  "rectangles_overlap rnd x1 y1 w1 h1 x2 y2 w2 h2 =
     (if rnd (x1 + w1) \<le> x2 \<or> rnd (x2 + w2) \<le> x1 \<or> rnd (y1 + h1) \<le> y2 \<or> rnd (y2 + h2) \<le> y1
      then False else True)"

text \<open>\<open>BottomLeft2D.overlap\<close>: the loop returns True at the first placed item that overlaps.\<close>

definition overlap :: "rounding \<Rightarrow> store \<Rightarrow> bin \<Rightarrow> item \<Rightarrow> real \<Rightarrow> real \<Rightarrow> bool" where
  "overlap rnd st b it x y =
     list_ex (\<lambda>p. rectangles_overlap rnd x y (item_width it) (item_height it)
                  (item_x (st ! p)) (item_y (st ! p)) (item_width (st ! p)) (item_height (st ! p)))
       (items b)"

definition candidate_positions :: "rounding \<Rightarrow> store \<Rightarrow> bin \<Rightarrow> (real \<times> real) list" where
  "candidate_positions rnd st b =
     (0, 0) # concat (map (\<lambda>p. [(rnd (item_x (st ! p) + item_width (st ! p)), item_y (st ! p)),
                                 (item_x (st ! p), rnd (item_y (st ! p) + item_height (st ! p)))])
                        (items b))"

definition valid_candidates :: "rounding \<Rightarrow> store \<Rightarrow> bin \<Rightarrow> item \<Rightarrow> (real \<times> real) list" where
  "valid_candidates rnd st b it =
     filter (\<lambda>(cx, cy). rnd (cx + item_width it) \<le> bin_width b
                         \<and> rnd (cy + item_height it) \<le> bin_height b
                         \<and> \<not> overlap rnd st b it cx cy)
       (candidate_positions rnd st b)"

text \<open>
  \<open>BottomLeft2D.find_position\<close>. Python's \<open>sort\<close> is stable and compares the key tuples
  \<open>(y, x)\<close> lexicographically, as \<open>sort_key\<close> does on pairs.
\<close>

definition find_position :: "rounding \<Rightarrow> store \<Rightarrow> bin \<Rightarrow> item \<Rightarrow> (real \<times> real) option" where
  "find_position rnd st b it =
     (case sort_key (\<lambda>pos. (snd pos, fst pos)) (valid_candidates rnd st b it) of
        [] \<Rightarrow> None
      | c # _ \<Rightarrow> Some c)"

text \<open>
  The overflow bin of the packing loops: the type of the first bin, built with the first
  bin's dimensions and the derived identifier.
\<close>

definition new_bin :: "bin list \<Rightarrow> bin" where
  "new_bin bins =
     Bin (''bin_'' @ str_nat (length bins + 1))
         (bin_width (hd bins)) (bin_height (hd bins)) (bin_depth (hd bins))"

text \<open>
  The inner loop of \<open>BottomLeft2D.pack\<close> over the existing bins, left at the first bin
  with a candidate position: None when no bin has one (\<open>placed\<close> stays False).
\<close>

fun bottom_left_place ::
  "rounding \<Rightarrow> store \<Rightarrow> ref \<Rightarrow> bin list \<Rightarrow> (store \<times> bin list) option" where
  "bottom_left_place rnd st r [] = None"
| "bottom_left_place rnd st r (b # bs) =
     (case find_position rnd st b (st ! r) of
        Some (x, y) \<Rightarrow>
          (let st' = st[r := set_position (st ! r) x y]
           in Some (st', fst (add_item st' b r) # bs))
      | None \<Rightarrow>
          (case bottom_left_place rnd st r bs of
             None \<Rightarrow> None
           | Some (st', bs') \<Rightarrow> Some (st', b # bs')))"

text \<open>\<open>BottomLeft2D.pack\<close>: the item list is the list of references \<open>its\<close>.\<close>

fun bottom_left_pack ::
  "rounding \<Rightarrow> store \<Rightarrow> ref list \<Rightarrow> bin list \<Rightarrow> error + (store \<times> bin list)" where
  "bottom_left_pack rnd st [] bins = Inr (st, bins)"
| "bottom_left_pack rnd st (r # rs) bins =
     (case bottom_left_place rnd st r bins of
        Some (st', bins') \<Rightarrow> bottom_left_pack rnd st' rs bins'
      | None \<Rightarrow>
          (if bins = [] then Inl NoBaseBin
           else
             (let st' = st[r := set_position (st ! r) 0 0]
              in bottom_left_pack rnd st' rs (bins @ [fst (add_item st' (new_bin bins) r)]))))"

section \<open>FirstFit2D\<close>

text \<open>The inner loop of \<open>FirstFit2D.pack\<close>: None when no bin can fit the item.\<close>

fun first_fit_place :: "store \<Rightarrow> ref \<Rightarrow> bin list \<Rightarrow> bin list option" where
  "first_fit_place st r [] = None"
| "first_fit_place st r (b # bs) =
     (if can_fit b (st ! r) then Some (fst (add_item st b r) # bs)
      else (case first_fit_place st r bs of None \<Rightarrow> None | Some bs' \<Rightarrow> Some (b # bs')))"

text \<open>\<open>FirstFit2D.pack\<close>: it never calls \<open>set_position\<close>, so the store is unchanged.\<close>

fun first_fit_pack :: "store \<Rightarrow> ref list \<Rightarrow> bin list \<Rightarrow> error + (store \<times> bin list)" where
  "first_fit_pack st [] bins = Inr (st, bins)"
| "first_fit_pack st (r # rs) bins =
     (case first_fit_place st r bins of
        Some bins' \<Rightarrow> first_fit_pack st rs bins'
      | None \<Rightarrow>
          (if length bins = 0 then Inl NoBaseBin
           else first_fit_pack st rs (bins @ [fst (add_item st (new_bin bins) r)])))"

section \<open>Guillotine2D\<close>

text \<open>
  \<open>str.lower\<close> on ASCII letters, and \<open>str.replace(c, "")\<close> for a single character
  (heuristic names are ASCII strings).
\<close>

definition lower :: "string \<Rightarrow> string" where
  "lower s =
     map (\<lambda>c. if 65 \<le> (of_char c :: nat) \<and> (of_char c :: nat) \<le> 90
              then char_of ((of_char c :: nat) + 32) else c) s"

definition remove_char :: "char \<Rightarrow> string \<Rightarrow> string" where
  "remove_char c s = filter (\<lambda>d. d \<noteq> c) s"

text \<open>\<open>Guillotine2D.find_position\<close>: the first free rectangle the item fits in.\<close>

definition guillotine_find_position :: "rect list \<Rightarrow> item \<Rightarrow> (real \<times> real \<times> nat) option" where
  "guillotine_find_position frs it =
     (case find (\<lambda>(idx, (rx, ry, rwidth, rheight)).
                   item_width it \<le> rwidth \<and> item_height it \<le> rheight)
             (enumerate 0 frs) of
        None \<Rightarrow> None
      | Some (idx, (rx, ry, rwidth, rheight)) \<Rightarrow> Some (rx, ry, idx))"

definition split_default :: "rounding \<Rightarrow> rect \<Rightarrow> item \<Rightarrow> real \<Rightarrow> real \<Rightarrow> rect list" where
  "split_default rnd rect it x y =
     (case rect of (rx, ry, rwidth, rheight) \<Rightarrow>
        (let right_width = rnd (rnd (rx + rwidth) - rnd (x + item_width it));
             top_height = rnd (rnd (ry + rheight) - rnd (y + item_height it))
         in (if right_width > 0
             then [(rnd (x + item_width it), y, right_width, item_height it)] else [])
            @ (if top_height > 0
               then [(rx, rnd (y + item_height it), rwidth, top_height)] else [])))"

definition split_alternative :: "rounding \<Rightarrow> rect \<Rightarrow> item \<Rightarrow> real \<Rightarrow> real \<Rightarrow> rect list" where
  "split_alternative rnd rect it x y =
     (case rect of (rx, ry, rwidth, rheight) \<Rightarrow>
        (let horizontal_width = rnd (rnd (rx + rwidth) - rnd (x + item_width it));
             vertical_height = rnd (rnd (ry + rheight) - rnd (y + item_height it))
         in (if horizontal_width > 0
             then [(rnd (x + item_width it), y, horizontal_width, rheight)] else [])
            @ (if vertical_height > 0
               then [(rx, rnd (y + item_height it), item_width it, vertical_height)] else [])))"

definition split_shorter_side :: "rounding \<Rightarrow> rect \<Rightarrow> item \<Rightarrow> real \<Rightarrow> real \<Rightarrow> rect list" where
  "split_shorter_side rnd rect it x y =
     (case rect of (rx, ry, rwidth, rheight) \<Rightarrow>
        (let right_leftover = rnd (rnd (rx + rwidth) - rnd (x + item_width it));
             top_leftover = rnd (rnd (ry + rheight) - rnd (y + item_height it))
         in if right_leftover \<le> top_leftover
            then (if right_leftover > 0
                  then [(rnd (x + item_width it), y, right_leftover, item_height it)] else [])
                 @ (if top_leftover > 0
                    then [(rx, rnd (y + item_height it), rwidth, top_leftover)] else [])
            else (if top_leftover > 0
                  then [(rx, rnd (y + item_height it), rwidth, top_leftover)] else [])
                 @ (if right_leftover > 0
                    then [(rnd (x + item_width it), y, right_leftover, rheight)] else [])))"

definition split_longer_side :: "rounding \<Rightarrow> rect \<Rightarrow> item \<Rightarrow> real \<Rightarrow> real \<Rightarrow> rect list" where
  "split_longer_side rnd rect it x y =
     (case rect of (rx, ry, rwidth, rheight) \<Rightarrow>
        (let right_leftover = rnd (rnd (rx + rwidth) - rnd (x + item_width it));
             top_leftover = rnd (rnd (ry + rheight) - rnd (y + item_height it))
         in if right_leftover \<ge> top_leftover
            then (if right_leftover > 0
                  then [(rnd (x + item_width it), y, right_leftover, item_height it)] else [])
                 @ (if top_leftover > 0
                    then [(rx, rnd (y + item_height it), rwidth, top_leftover)] else [])
            else (if top_leftover > 0
                  then [(rx, rnd (y + item_height it), rwidth, top_leftover)] else [])
                 @ (if right_leftover > 0
                    then [(rnd (x + item_width it), y, right_leftover, rheight)] else [])))"

text \<open>\<open>Guillotine2D.split_rectangle\<close>: the only place that looks at the heuristic name.\<close>

definition split_rectangle ::
  "rounding \<Rightarrow> string \<Rightarrow> rect \<Rightarrow> item \<Rightarrow> real \<Rightarrow> real \<Rightarrow> error + rect list" where
  "split_rectangle rnd heuristic rect it x y =
     (let key = remove_char (CHR ''_'') (remove_char (CHR '' '') (lower heuristic))
      in if key = ''default'' then Inr (split_default rnd rect it x y)
         else if key = ''alternative'' then Inr (split_alternative rnd rect it x y)
         else if key \<in> set [''shorterside'', ''shorter''] then Inr (split_shorter_side rnd rect it x y)
         else if key \<in> set [''longerside'', ''longer''] then Inr (split_longer_side rnd rect it x y)
         else Inl (UnknownHeuristic heuristic))"

text \<open>
  The loop of \<open>Guillotine2D.pack\<close> over the items, for one bin. An exception leaves the
  objects as they were mutated so far: the error comes with the store and the bin at the
  raise.
\<close>

fun guillotine_items ::
  "rounding \<Rightarrow> string \<Rightarrow> store \<Rightarrow> bin \<Rightarrow> rect list \<Rightarrow> ref list
     \<Rightarrow> (error \<times> store \<times> bin) + (store \<times> bin \<times> rect list)"
where
  "guillotine_items rnd heuristic st b frs [] = Inr (st, b, frs)"
| "guillotine_items rnd heuristic st b frs (r # rs) =
     (case guillotine_find_position frs (st ! r) of
        None \<Rightarrow> guillotine_items rnd heuristic st b frs rs
      | Some (x, y, rect_index) \<Rightarrow>
          (let st' = st[r := set_position (st ! r) x y];
               b' = fst (add_item st' b r);
               used_rect = frs ! rect_index;
               frs' = take rect_index frs @ drop (Suc rect_index) frs
           in case split_rectangle rnd heuristic used_rect (st' ! r) x y of
                Inl e \<Rightarrow> Inl (e, st', b')
              | Inr new_rects \<Rightarrow> guillotine_items rnd heuristic st' b' (frs' @ new_rects) rs))"

text \<open>\<open>Guillotine2D.pack\<close>: the outer loop over the bins; every bin is offered every item.\<close>

fun guillotine_pack ::
  "rounding \<Rightarrow> string \<Rightarrow> store \<Rightarrow> ref list \<Rightarrow> bin list
     \<Rightarrow> (error \<times> store \<times> bin list) + (store \<times> bin list)"
where
  "guillotine_pack rnd heuristic st its [] = Inr (st, [])"
| "guillotine_pack rnd heuristic st its (b # bs) =
     (case guillotine_items rnd heuristic st b [(0, 0, bin_width b, bin_height b)] its of
        Inl (e, st', b') \<Rightarrow> Inl (e, st', b' # bs)
      | Inr (st', b', frs) \<Rightarrow>
          (case guillotine_pack rnd heuristic st' its bs of
             Inl (e, st'', bs') \<Rightarrow> Inl (e, st'', b' # bs')
           | Inr (st'', bs') \<Rightarrow> Inr (st'', b' # bs')))"

section \<open>MaxRects2D\<close>

definition calculate_contact_score ::
  "rounding \<Rightarrow> real \<Rightarrow> real \<Rightarrow> real \<Rightarrow> real \<Rightarrow> item \<Rightarrow> real" where
  "calculate_contact_score rnd rx ry rwidth rheight it = rnd (rwidth + rheight)"

text \<open>\<open>MaxRects2D.evaluate_position\<close>: the last branch is taken by every other name.\<close>

definition evaluate_position ::
  "rounding \<Rightarrow> string \<Rightarrow> real \<Rightarrow> real \<Rightarrow> real \<Rightarrow> real \<Rightarrow> item \<Rightarrow> real" where
  "evaluate_position rnd heuristic rx ry rwidth rheight it =
     (let leftover_horiz = rnd (rwidth - item_width it);
          leftover_vert = rnd (rheight - item_height it);
          key = lower heuristic
      in if key = ''best_short_side_fit'' then min leftover_horiz leftover_vert
         else if key = ''best_long_side_fit'' then max leftover_horiz leftover_vert
         else if key = ''best_area_fit''
              then rnd (rnd (rwidth * rheight) - rnd (item_width it * item_height it))
         else if key = ''bottom_left'' then rnd (rnd (ry * 10000) + rx)
         else if key = ''contact_point_rule''
              then - calculate_contact_score rnd rx ry rwidth rheight it
         else min leftover_horiz leftover_vert)"

text \<open>
  One round of the loop of \<open>MaxRects2D.find_best_position\<close>, on the triple
  \<open>(best_score, best_position, best_index)\<close>.
\<close>

definition best_step ::
  "rounding \<Rightarrow> string \<Rightarrow> item \<Rightarrow> nat \<times> rect \<Rightarrow> real option \<times> (real \<times> real) option \<times> int
     \<Rightarrow> real option \<times> (real \<times> real) option \<times> int"
where
  "best_step rnd heuristic it e acc =
     (case e of (idx, (rx, ry, rwidth, rheight)) \<Rightarrow>
        (case acc of (best_score, best_position, best_index) \<Rightarrow>
           if item_width it \<le> rwidth \<and> item_height it \<le> rheight
           then (let score = evaluate_position rnd heuristic rx ry rwidth rheight it
                 in if best_score = None \<or> score < the best_score
                    then (Some score, Some (rx, ry), int idx)
                    else (best_score, best_position, best_index))
           else (best_score, best_position, best_index)))"

definition find_best_position ::
  "rounding \<Rightarrow> string \<Rightarrow> rect list \<Rightarrow> item \<Rightarrow> (real \<times> real \<times> int) option" where
  "find_best_position rnd heuristic frs it =
     (case fold (best_step rnd heuristic it) (enumerate 0 frs) (None, None, - 1) of
        (best_score, best_position, best_index) \<Rightarrow>
          (case best_position of
             Some (px, py) \<Rightarrow> Some (px, py, best_index)
           | None \<Rightarrow> None))"

definition rectangles_intersect :: "rounding \<Rightarrow> rect \<Rightarrow> rect \<Rightarrow> bool" where
  "rectangles_intersect rnd fr pr =
     (case fr of (fx, fy, fw, fh) \<Rightarrow> case pr of (px, py, pw, ph) \<Rightarrow>
        \<not> (fx \<ge> rnd (px + pw) \<or> rnd (fx + fw) \<le> px \<or> fy \<ge> rnd (py + ph) \<or> rnd (fy + fh) \<le> py))"

definition split_free_rectangle :: "rounding \<Rightarrow> rect \<Rightarrow> rect \<Rightarrow> rect list" where
  "split_free_rectangle rnd fr pr =
     (case fr of (fx, fy, fw, fh) \<Rightarrow> case pr of (px, py, pw, ph) \<Rightarrow>
        (let new_rects =
               (if rnd (py + ph) < rnd (fy + fh)
                then [(fx, rnd (py + ph), fw, rnd (rnd (fy + fh) - rnd (py + ph)))] else [])
               @ (if py > fy then [(fx, fy, fw, rnd (py - fy))] else [])
               @ (if px > fx then [(fx, fy, rnd (px - fx), fh)] else [])
               @ (if rnd (px + pw) < rnd (fx + fw)
                  then [(rnd (px + pw), fy, rnd (rnd (fx + fw) - rnd (px + pw)), fh)] else [])
         in filter (\<lambda>(rx, ry, rw, rh). rw > 0 \<and> rh > 0) new_rects))"

text \<open>The containment test of \<open>prune_free_rectangles\<close>: \<open>rect\<close> lies inside \<open>other\<close>.\<close>

definition contained_in :: "rounding \<Rightarrow> rect \<Rightarrow> rect \<Rightarrow> bool" where
  "contained_in rnd rect other =
     (case rect of (fx, fy, fw, fh) \<Rightarrow> case other of (ox, oy, ow, oh) \<Rightarrow>
        fx \<ge> ox \<and> fy \<ge> oy \<and> rnd (fx + fw) \<le> rnd (ox + ow) \<and> rnd (fy + fh) \<le> rnd (oy + oh))"

text \<open>
  The inner loop of \<open>prune_free_rectangles\<close> for the rectangle at index \<open>i\<close>: the flag
  \<open>contained\<close> after the loop.
\<close>

definition contained_in_other :: "rounding \<Rightarrow> rect list \<Rightarrow> nat \<Rightarrow> rect \<Rightarrow> bool" where
  "contained_in_other rnd frs i rect =
     list_ex (\<lambda>(j, other). i \<noteq> j \<and> contained_in rnd rect other) (enumerate 0 frs)"

definition prune_free_rectangles :: "rounding \<Rightarrow> rect list \<Rightarrow> rect list" where
  "prune_free_rectangles rnd frs =
     map snd (filter (\<lambda>(i, rect). \<not> contained_in_other rnd frs i rect) (enumerate 0 frs))"

definition update_free_rectangles :: "rounding \<Rightarrow> rect list \<Rightarrow> rect \<Rightarrow> rect list" where
  "update_free_rectangles rnd frs placed_rect =
     prune_free_rectangles rnd
       (concat (map (\<lambda>fr. if rectangles_intersect rnd fr placed_rect
                          then split_free_rectangle rnd fr placed_rect else [fr]) frs))"

text \<open>The loop of \<open>MaxRects2D.pack\<close> over the items, for one bin.\<close>

fun maxrects_items ::
  "rounding \<Rightarrow> string \<Rightarrow> store \<Rightarrow> bin \<Rightarrow> rect list \<Rightarrow> ref list \<Rightarrow> store \<times> bin \<times> rect list"
where
  "maxrects_items rnd heuristic st b frs [] = (st, b, frs)"
| "maxrects_items rnd heuristic st b frs (r # rs) =
     (case find_best_position rnd heuristic frs (st ! r) of
        Some (x, y, best_rect_index) \<Rightarrow>
          (let st' = st[r := set_position (st ! r) x y];
               b' = fst (add_item st' b r);
               placed_rect = (x, y, item_width (st' ! r), item_height (st' ! r))
           in maxrects_items rnd heuristic st' b' (update_free_rectangles rnd frs placed_rect) rs)
      | None \<Rightarrow> maxrects_items rnd heuristic st b frs rs)"

text \<open>
  \<open>MaxRects2D.pack\<close>: the outer loop over the bins; every bin is offered every item.
  No statement of this class raises, so the result is always \<open>Inr\<close>.
\<close>

fun maxrects_pack ::
  "rounding \<Rightarrow> string \<Rightarrow> store \<Rightarrow> ref list \<Rightarrow> bin list
     \<Rightarrow> (error \<times> store \<times> bin list) + (store \<times> bin list)"
where
  "maxrects_pack rnd heuristic st its [] = Inr (st, [])"
| "maxrects_pack rnd heuristic st its (b # bs) =
     (case maxrects_items rnd heuristic st b [(0, 0, bin_width b, bin_height b)] its of
        (st', b', frs) \<Rightarrow>
          (case maxrects_pack rnd heuristic st' its bs of
             Inl (e, st'', bs') \<Rightarrow> Inl (e, st'', b' # bs')
           | Inr (st'', bs') \<Rightarrow>
               Inr (st'', b'\<lparr>free_rectangles := Some (prune_free_rectangles rnd frs)\<rparr> # bs')))"

section \<open>Properties of a packing\<close>

text \<open>
  The placed items of a bin stay inside the bin, and no two different items of its list
  overlap (the test of \<open>rectangles_overlap\<close>: a shared edge is no overlap). The sums
  \<open>x + width\<close> and \<open>y + height\<close> are the ones Python computes.
\<close>

definition within_bounds :: "rounding \<Rightarrow> store \<Rightarrow> bin \<Rightarrow> bool" where
  "within_bounds rnd st b =
     list_all (\<lambda>p. 0 \<le> item_x (st ! p) \<and> 0 \<le> item_y (st ! p)
                  \<and> rnd (item_x (st ! p) + item_width (st ! p)) \<le> bin_width b
                  \<and> rnd (item_y (st ! p) + item_height (st ! p)) \<le> bin_height b)
       (items b)"

definition items_overlap :: "rounding \<Rightarrow> store \<Rightarrow> ref \<Rightarrow> ref \<Rightarrow> bool" where
  "items_overlap rnd st p q =
     rectangles_overlap rnd
       (item_x (st ! p)) (item_y (st ! p)) (item_width (st ! p)) (item_height (st ! p))
       (item_x (st ! q)) (item_y (st ! q)) (item_width (st ! q)) (item_height (st ! q))"

definition no_overlaps :: "rounding \<Rightarrow> store \<Rightarrow> bin \<Rightarrow> bool" where
  "no_overlaps rnd st b =
     list_all (\<lambda>p. list_all (\<lambda>q. p = q \<or> \<not> items_overlap rnd st p q) (items b)) (items b)"

text \<open>
  The points of the plane a free rectangle covers (its border included), with the right
  and the top edge as \<open>prune_free_rectangles\<close> computes them: \<open>x + w\<close> and \<open>y + h\<close>.
\<close>

definition rect_points :: "rounding \<Rightarrow> rect \<Rightarrow> (real \<times> real) set" where
  "rect_points rnd r =
     (case r of (x, y, w, h) \<Rightarrow>
        {(px, py). x \<le> px \<and> px \<le> rnd (x + w) \<and> y \<le> py \<and> py \<le> rnd (y + h)})"

text \<open>The store after Bottom-Left has packed the items A(2x3), B(3x2), C(1x1).\<close>

definition scenario_a_store :: store where
  "scenario_a_store =
     [(Item ''A'' 2 3)\<lparr>item_x := 0, item_y := 0\<rparr>, (Item ''B'' 3 2)\<lparr>item_x := 2, item_y := 0\<rparr>,
      (Item ''C'' 1 1)\<lparr>item_x := 2, item_y := 2\<rparr>]"

text \<open>
  The invariant of the Bottom-Left loop for one bin: every placed item is a valid
  reference, has non-negative coordinates and dimensions, lies inside the bin, and no two
  different placed items overlap.
\<close>

definition bin_ok :: "rounding \<Rightarrow> store \<Rightarrow> bin \<Rightarrow> bool" where
  "bin_ok rnd st b =
     ((\<forall>p \<in> set (items b).
         p < length st \<and> 0 \<le> item_x (st ! p) \<and> 0 \<le> item_y (st ! p)
         \<and> 0 \<le> item_width (st ! p) \<and> 0 \<le> item_height (st ! p)
         \<and> rnd (item_x (st ! p) + item_width (st ! p)) \<le> bin_width b
         \<and> rnd (item_y (st ! p) + item_height (st ! p)) \<le> bin_height b)
      \<and> (\<forall>p \<in> set (items b). \<forall>q \<in> set (items b). p = q \<or> \<not> items_overlap rnd st p q))"

text \<open>The items that are in the item list of some bin.\<close>

definition placed :: "bin list \<Rightarrow> ref set" where
  "placed bins = (\<Union>b \<in> set bins. set (items b))"

section \<open>Scores of free rectangles\<close>

text \<open>
  The admission test of both \<open>find_position\<close> loops, the score of a free rectangle under a
  heuristic, and the corner returned for it.
\<close>

definition fits :: "item \<Rightarrow> rect \<Rightarrow> bool" where
  "fits it r = (case r of (rx, ry, rwidth, rheight) \<Rightarrow>
                  item_width it \<le> rwidth \<and> item_height it \<le> rheight)"

definition score :: "rounding \<Rightarrow> string \<Rightarrow> item \<Rightarrow> rect \<Rightarrow> real" where
  "score rnd heuristic it r =
     (case r of (rx, ry, rwidth, rheight) \<Rightarrow>
        evaluate_position rnd heuristic rx ry rwidth rheight it)"

definition origin :: "rect \<Rightarrow> real \<times> real" where
  "origin r = (case r of (rx, ry, rwidth, rheight) \<Rightarrow> (rx, ry))"

text \<open>
  The score \<open>max(leftover-width, leftover-height)\<close>, in the words of the specification; the
  two leftovers are differences of doubles, as Python computes them.
\<close>

definition long_side_leftover :: "rounding \<Rightarrow> item \<Rightarrow> rect \<Rightarrow> real" where
  "long_side_leftover rnd it r =
     (case r of (rx, ry, rwidth, rheight) \<Rightarrow>
        max (rnd (rwidth - item_width it)) (rnd (rheight - item_height it)))"

text \<open>
  The invariant of the loop of \<open>find_best_position\<close> after the rectangles \<open>frs\<close>: the triple
  is the first rectangle of least score among those that admit the item, if there is one.
\<close>

definition best_inv ::
  "rounding \<Rightarrow> string \<Rightarrow> item \<Rightarrow> rect list
     \<Rightarrow> real option \<times> (real \<times> real) option \<times> int \<Rightarrow> bool" where
  "best_inv rnd heuristic it frs acc =
     (if \<exists>j < length frs. fits it (frs ! j)
      then \<exists>k < length frs.
             acc = (Some (score rnd heuristic it (frs ! k)), Some (origin (frs ! k)), int k)
             \<and> fits it (frs ! k)
             \<and> (\<forall>j < length frs. fits it (frs ! j) \<longrightarrow>
                   score rnd heuristic it (frs ! k) \<le> score rnd heuristic it (frs ! j))
             \<and> (\<forall>j < k. fits it (frs ! j) \<longrightarrow>
                   score rnd heuristic it (frs ! k) < score rnd heuristic it (frs ! j))
      else acc = (None, None, - 1))"

section \<open>Bin.add_item\<close>

text \<open>
  C10. \<open>add_item\<close> returns True exactly when the item passes the dimension check
  (width and height within the bin's, and for a bin with a depth the item has a depth
  within the bin's); then the item is appended to the item list, otherwise the bin is
  unchanged. Hence if every item of the list passed the check before the call, every
  item of the list passes it after the call.
\<close>

theorem add_item_iff_dimension_check:
  "(snd (add_item st b r) \<longleftrightarrow>
      item_width (st ! r) \<le> bin_width b \<and> item_height (st ! r) \<le> bin_height b \<and>
      (bin_depth b \<noteq> None \<longrightarrow>
         item_depth (st ! r) \<noteq> None \<and> the (item_depth (st ! r)) \<le> the (bin_depth b)))
   \<and> (snd (add_item st b r) \<longrightarrow> fst (add_item st b r) = b\<lparr>items := items b @ [r]\<rparr>)
   \<and> (\<not> snd (add_item st b r) \<longrightarrow> fst (add_item st b r) = b)
   \<and> ((\<forall>q \<in> set (items b). can_fit b (st ! q)) \<longrightarrow>
        (\<forall>q \<in> set (items (fst (add_item st b r))). can_fit (fst (add_item st b r)) (st ! q)))"
  by (auto simp: add_item_def can_fit_def split: option.splits)

theorem add_item_iff_dimension_check_witness:
  "snd (add_item [Item ''A'' 2 3] (Bin ''bin_1'' 5 5 None) 0)
   \<and> items (fst (add_item [Item ''A'' 2 3] (Bin ''bin_1'' 5 5 None) 0)) = [0]
   \<and> \<not> snd (add_item [Item ''A'' 6 3] (Bin ''bin_1'' 5 5 None) 0)
   \<and> fst (add_item [Item ''A'' 6 3] (Bin ''bin_1'' 5 5 None) 0) = Bin ''bin_1'' 5 5 None
   \<and> \<not> snd (add_item [Item ''A'' 2 3] (Bin ''bin_1'' 5 5 (Some 4)) 0)"
  using add_item_iff_dimension_check [of "[Item ''A'' 2 3]" "Bin ''bin_1'' 5 5 None" 0]
        add_item_iff_dimension_check [of "[Item ''A'' 6 3]" "Bin ''bin_1'' 5 5 None" 0]
        add_item_iff_dimension_check [of "[Item ''A'' 2 3]" "Bin ''bin_1'' 5 5 (Some 4)" 0]
  by (simp add: Item_def Bin_def)

section \<open>Scenarios of BottomLeft2D and FirstFit2D\<close>

text \<open>
  The scenarios run on small integers: every sum and difference is a double, nothing is
  rounded, and the arithmetic of the run is \<open>exact\<close>.
\<close>

lemma str_nat_2: "str_nat (Suc (Suc 0)) = ''2''"
  by code_simp

text \<open>
  C4, as stated: Bottom-Left on one empty 5x5 bin with A(2x3), B(3x2), C(1x1) would place
  C at (0,3). The run places C at (2,2): both (0,3) and (2,2) are valid candidates, and
  (2,2) has the smaller y.
\<close>

theorem scenario_a_counterexample:
  "bottom_left_pack exact [Item ''A'' 2 3, Item ''B'' 3 2, Item ''C'' 1 1] [0, 1, 2] [Bin ''bin_1'' 5 5 None]
     = Inr ([set_position (Item ''A'' 2 3) 0 0, set_position (Item ''B'' 3 2) 2 0,
             set_position (Item ''C'' 1 1) 2 2],
            [(Bin ''bin_1'' 5 5 None)\<lparr>items := [0, 1, 2]\<rparr>])
   \<and> (item_x (set_position (Item ''C'' 1 1) 2 2), item_y (set_position (Item ''C'' 1 1) 2 2)) \<noteq> (0, 3)"
  by code_simp

text \<open>
  C4, amended: the run places A at (0,0), B at (2,0) and C at (2,2), all three in the one
  bin, with no two of them overlapping and all three within the bin's bounds.
\<close>

theorem scenario_a_positions:
  "bottom_left_pack exact [Item ''A'' 2 3, Item ''B'' 3 2, Item ''C'' 1 1] [0, 1, 2]
       [Bin ''bin_1'' 5 5 None]
     = Inr (scenario_a_store, [(Bin ''bin_1'' 5 5 None)\<lparr>items := [0, 1, 2]\<rparr>])
   \<and> no_overlaps exact scenario_a_store ((Bin ''bin_1'' 5 5 None)\<lparr>items := [0, 1, 2]\<rparr>)
   \<and> within_bounds exact scenario_a_store ((Bin ''bin_1'' 5 5 None)\<lparr>items := [0, 1, 2]\<rparr>)"
  by code_simp

text \<open>
  C5, as stated: First-Fit on one empty 5x5 bin with one item of width 6 would leave the
  item in the item list of the new bin. The new bin is appended, but its \<open>add_item\<close>
  refuses the item: the item list of the new bin is empty.
\<close>

theorem first_fit_overflow_counterexample:
  "first_fit_pack [Item ''A'' 6 3] [0] [Bin ''bin_1'' 5 5 None]
     = Inr ([Item ''A'' 6 3], [Bin ''bin_1'' 5 5 None, Bin ''bin_2'' 5 5 None])
   \<and> items (Bin ''bin_2'' 5 5 None) = []"
  by code_simp

text \<open>
  C5, amended: First-Fit on one empty 5x5 bin with a single item of width 6 and height at
  most 5 appends a new 5x5 bin \<open>bin_2\<close> cloned from the first bin; the item is in the item
  list of neither bin, and the item is unchanged (First-Fit never sets a position).
\<close>

theorem first_fit_overflow_drops_item:
  assumes "item_width it = 6" and "item_height it \<le> 5"
  shows "first_fit_pack [it] [0] [Bin ''bin_1'' 5 5 None]
           = Inr ([it], [Bin ''bin_1'' 5 5 None, Bin ''bin_2'' 5 5 None])"
  using assms
  by (simp add: can_fit_def add_item_def new_bin_def Bin_def str_nat_2 split: option.splits)

theorem first_fit_overflow_drops_item_witness:
  "first_fit_pack [Item ''A'' 6 5] [0] [Bin ''bin_1'' 5 5 None]
     = Inr ([Item ''A'' 6 5], [Bin ''bin_1'' 5 5 None, Bin ''bin_2'' 5 5 None])"
  using first_fit_overflow_drops_item [of "Item ''A'' 6 5"] by (simp add: Item_def)

section \<open>One item, several bins\<close>

text \<open>
  C1 fails for Guillotine2D and MaxRects2D: their loops offer every item to every bin and
  never leave the loop after a placement. With one 4x4 item and two 10x10 bins, the item
  is in the item list of both bins.
\<close>

theorem item_in_two_bins:
  "guillotine_pack exact ''default'' [Item ''A'' 4 4] [0] [Bin ''bin_0'' 10 10 None, Bin ''bin_1'' 10 10 None]
     = Inr ([Item ''A'' 4 4],
            [(Bin ''bin_0'' 10 10 None)\<lparr>items := [0]\<rparr>, (Bin ''bin_1'' 10 10 None)\<lparr>items := [0]\<rparr>])
   \<and> maxrects_pack exact ''best_short_side_fit'' [Item ''A'' 4 4] [0]
        [Bin ''bin_0'' 10 10 None, Bin ''bin_1'' 10 10 None]
     = Inr ([Item ''A'' 4 4],
            [(Bin ''bin_0'' 10 10 None)
               \<lparr>items := [0], free_rectangles := Some [(0, 4, 10, 6), (4, 0, 6, 10)]\<rparr>,
             (Bin ''bin_1'' 10 10 None)
               \<lparr>items := [0], free_rectangles := Some [(0, 4, 10, 6), (4, 0, 6, 10)]\<rparr>])"
  by code_simp

text \<open>
  The position is then set once per bin: item B is placed at (0,4) for the first bin and
  moved to (4,0) by the second, while it stays in the item list of the first.
\<close>

lemma position_set_once_per_bin:
  "guillotine_pack exact ''default'' [Item ''A'' 4 4, Item ''B'' 7 3] [0, 1]
       [Bin ''bin_0'' 10 10 None, Bin ''bin_1'' 12 4 None]
     = Inr ([Item ''A'' 4 4, set_position (Item ''B'' 7 3) 4 0],
            [(Bin ''bin_0'' 10 10 None)\<lparr>items := [0, 1]\<rparr>, (Bin ''bin_1'' 12 4 None)\<lparr>items := [0, 1]\<rparr>])
  \<and> guillotine_pack exact ''default'' [Item ''A'' 4 4, Item ''B'' 7 3] [0, 1]
       [Bin ''bin_0'' 10 10 None]
     = Inr ([Item ''A'' 4 4, set_position (Item ''B'' 7 3) 0 4],
            [(Bin ''bin_0'' 10 10 None)\<lparr>items := [0, 1]\<rparr>])"
  by code_simp

section \<open>Guillotine split rules\<close>

text \<open>
  C7 fails in the second branch of \<open>shorter_side\<close> and of \<open>longer_side\<close>: the right
  remainder is emitted with the full height of the free rectangle, not the item's height
  as the default rule does. For the free rectangle (0,0,10,10) and a 4x6 item at (0,0),
  \<open>shorter_side\<close> emits (4,0,6,10) where the default rule emits (4,0,6,6); likewise
  \<open>longer_side\<close> for a 6x4 item.
\<close>

theorem split_side_rules_differ_from_default:
  "split_shorter_side exact (0, 0, 10, 10) (Item ''A'' 4 6) 0 0 = [(0, 6, 10, 4), (4, 0, 6, 10)]
   \<and> split_default exact (0, 0, 10, 10) (Item ''A'' 4 6) 0 0 = [(4, 0, 6, 6), (0, 6, 10, 4)]
   \<and> split_longer_side exact (0, 0, 10, 10) (Item ''A'' 6 4) 0 0 = [(0, 4, 10, 6), (6, 0, 4, 10)]
   \<and> split_default exact (0, 0, 10, 10) (Item ''A'' 6 4) 0 0 = [(6, 0, 4, 4), (0, 4, 10, 6)]"
  by code_simp

section \<open>Pruning the free rectangles\<close>

lemma bex_enumerate:
  "(\<exists>e \<in> set (enumerate 0 xs). P e) \<longleftrightarrow> (\<exists>j < length xs. P (j, xs ! j))"
  by (force simp: in_set_enumerate_eq)

lemma contained_in_other_iff:
  "contained_in_other rnd frs i rect
     \<longleftrightarrow> (\<exists>j < length frs. i \<noteq> j \<and> contained_in rnd rect (frs ! j))"
  by (simp add: contained_in_other_def list_ex_iff bex_enumerate)

lemma prune_kept_entries:
  "e \<in> set (filter (\<lambda>(i, rect). \<not> contained_in_other rnd frs i rect) (enumerate 0 frs))
     \<longleftrightarrow> fst e < length frs \<and> snd e = frs ! fst e
          \<and> \<not> contained_in_other rnd frs (fst e) (snd e)"
  by (cases e) (auto simp: in_set_enumerate_eq)

lemma distinct_fst_filter_enumerate:
  "distinct (map fst (filter P (enumerate n xs)))"
  by (simp add: distinct_map_filter)

lemma idem_aux:
  assumes F: "F = filter (\<lambda>(i, rect). \<not> contained_in_other rnd frs i rect) (enumerate 0 frs)"
    and "k < length F"
  shows "\<not> contained_in_other rnd (map snd F) k (snd (F ! k))"
proof
  assume "contained_in_other rnd (map snd F) k (snd (F ! k))"
  then obtain j where j: "j < length F" "k \<noteq> j" "contained_in rnd (snd (F ! k)) (snd (F ! j))"
    by (auto simp: contained_in_other_iff)
  have d: "distinct (map fst F)"
    unfolding F by (rule distinct_fst_filter_enumerate)
  have ne: "fst (F ! k) \<noteq> fst (F ! j)"
    using d j(1,2) assms(2) by (auto simp: distinct_conv_nth)
  have "F ! k \<in> set F" and "F ! j \<in> set F"
    using assms(2) j(1) by simp_all
  then have k: "\<not> contained_in_other rnd frs (fst (F ! k)) (snd (F ! k))"
    and jj: "fst (F ! j) < length frs" "snd (F ! j) = frs ! fst (F ! j)"
    unfolding F prune_kept_entries by blast+
  from k jj ne j(3) show False
    unfolding contained_in_other_iff by metis
qed

lemma contained_in_refl: "contained_in rnd r r"
  by (cases r) (simp add: contained_in_def)

lemma contained_in_trans:
  "contained_in rnd a b \<Longrightarrow> contained_in rnd b c \<Longrightarrow> contained_in rnd a c"
  by (cases a, cases b, cases c) (simp add: contained_in_def)

lemma contained_in_points: "contained_in rnd a b \<Longrightarrow> rect_points rnd a \<subseteq> rect_points rnd b"
  by (cases a, cases b) (auto simp: contained_in_def rect_points_def)

lemma set_prune:
  "set (prune_free_rectangles rnd S)
     = {S ! i | i. i < length S \<and> \<not> contained_in_other rnd S i (S ! i)}"
  unfolding prune_free_rectangles_def set_map
  by (force simp: prune_kept_entries image_iff in_set_enumerate_eq)

text \<open>
  When no two entries of the list contain each other, every entry is contained in an entry
  that no other entry contains: among the entries above it, one with the fewest entries
  above itself.
\<close>

lemma kept_above:
  assumes anti: "\<forall>i < length S. \<forall>j < length S.
                   i \<noteq> j \<and> contained_in rnd (S ! i) (S ! j) \<longrightarrow> \<not> contained_in rnd (S ! j) (S ! i)"
    and i: "i < length S"
  shows "\<exists>k < length S. contained_in rnd (S ! i) (S ! k) \<and> \<not> contained_in_other rnd S k (S ! k)"
proof -
  define up where "up j = {m. m < length S \<and> contained_in rnd (S ! j) (S ! m)}" for j
  define A where "A = up i"
  have fin_up: "finite (up j)" for j
    by (simp add: up_def)
  have "i \<in> A"
    using i contained_in_refl [of rnd "S ! i"] by (simp add: A_def up_def)
  then have ne: "A \<noteq> {}"
    by blast
  from ex_is_arg_min_if_finite [OF fin_up [of i, folded A_def] ne, of "\<lambda>j. card (up j)"]
  obtain k where k: "k \<in> A" and mn: "\<forall>j \<in> A. \<not> card (up j) < card (up k)"
    by (auto simp: is_arg_min_def)
  have kS: "k < length S" and ik: "contained_in rnd (S ! i) (S ! k)"
    using k by (simp_all add: A_def up_def)
  have "\<not> contained_in_other rnd S k (S ! k)"
  proof
    assume "contained_in_other rnd S k (S ! k)"
    then obtain j where j: "j < length S" "k \<noteq> j" "contained_in rnd (S ! k) (S ! j)"
      by (auto simp: contained_in_other_iff)
    have nb: "\<not> contained_in rnd (S ! j) (S ! k)"
      using anti kS j by blast
    have "j \<in> A"
      using j(1) contained_in_trans [OF ik j(3)] by (simp add: A_def up_def)
    have sub: "up j \<subseteq> up k"
    proof
      fix m assume "m \<in> up j"
      then have m: "m < length S" "contained_in rnd (S ! j) (S ! m)"
        by (simp_all add: up_def)
      have "contained_in rnd (S ! k) (S ! m)"
        using j(3) m(2) by (rule contained_in_trans)
      with m(1) show "m \<in> up k" by (simp add: up_def)
    qed
    have "k \<in> up k"
      using kS contained_in_refl [of rnd "S ! k"] by (simp add: up_def)
    moreover have "k \<notin> up j"
      using nb by (simp add: up_def)
    ultimately have "up j \<subset> up k"
      using sub by blast
    then have "card (up j) < card (up k)"
      by (rule psubset_card_mono [OF fin_up])
    with mn \<open>j \<in> A\<close> show False by blast
  qed
  with kS ik show ?thesis by blast
qed

text \<open>
  C9. Pruning is idempotent: pruning a pruned list of free rectangles changes nothing.
\<close>

theorem prune_idempotent:
  "prune_free_rectangles rnd (prune_free_rectangles rnd S) = prune_free_rectangles rnd S"
proof -
  define F where "F = filter (\<lambda>(i, rect). \<not> contained_in_other rnd S i rect) (enumerate 0 S)"
  have P: "prune_free_rectangles rnd S = map snd F"
    by (simp add: prune_free_rectangles_def F_def)
  have "filter (\<lambda>(i, rect). \<not> contained_in_other rnd (map snd F) i rect) (enumerate 0 (map snd F))
          = enumerate 0 (map snd F)"
  proof (rule filter_True, clarify)
    fix k r
    assume "(k, r) \<in> set (enumerate 0 (map snd F))" and c: "contained_in_other rnd (map snd F) k r"
    then have "k < length F" "r = snd (F ! k)"
      by (auto simp: in_set_enumerate_eq)
    with idem_aux [OF F_def] c show False by blast
  qed
  then have "prune_free_rectangles rnd (map snd F) = map snd (enumerate 0 (map snd F))"
    by (simp add: prune_free_rectangles_def)
  also have "\<dots> = map snd F"
    by (simp add: enumerate_eq_zip)
  finally show ?thesis
    by (simp add: P)
qed

text \<open>
  C6, as stated for every list: pruning would never remove unique free area. A rectangle
  that occurs twice is contained in its other copy, so both copies are dropped: the list
  with two copies of (0,0,5,5) is pruned to the empty list, and the point (1,1) is no
  longer covered.
\<close>

theorem prune_duplicates_counterexample:
  "prune_free_rectangles exact [(0, 0, 5, 5), (0, 0, 5, 5)] = []
   \<and> (1, 1) \<in> \<Union> (rect_points exact ` set [(0, 0, 5, 5), (0, 0, 5, 5)])
   \<and> (1, 1) \<notin> \<Union> (rect_points exact ` set (prune_free_rectangles exact [(0, 0, 5, 5), (0, 0, 5, 5)]))"
  by (simp add: prune_free_rectangles_def contained_in_other_def contained_in_def rect_points_def
      enumerate_eq_zip exact_def)

text \<open>
  C6, amended. ``Contained'' is the test of the code: the left and bottom edges are
  compared as they are, the right and top edges as the sums \<open>x + w\<close> and \<open>y + h\<close> that
  Python computes. Every rectangle dropped by \<open>prune_free_rectangles\<close> is contained in a
  rectangle at another position of the list; the rectangles kept are exactly those
  contained in no rectangle at another position; and for a list in which no two entries
  contain each other (in particular no rectangle occurs twice), every rectangle of the
  list is contained in a rectangle that is kept, so the kept rectangles cover the same
  points as all rectangles of the list.
\<close>

theorem prune_only_redundant:
  "(\<forall>i < length S. contained_in_other rnd S i (S ! i) \<longrightarrow>
      (\<exists>j < length S. j \<noteq> i \<and> contained_in rnd (S ! i) (S ! j)))
   \<and> set (prune_free_rectangles rnd S)
       = {S ! i | i. i < length S \<and> \<not> (\<exists>j < length S. j \<noteq> i \<and> contained_in rnd (S ! i) (S ! j))}
   \<and> ((\<forall>i < length S. \<forall>j < length S.
          i \<noteq> j \<and> contained_in rnd (S ! i) (S ! j) \<longrightarrow> \<not> contained_in rnd (S ! j) (S ! i)) \<longrightarrow>
        (\<forall>r \<in> set S. \<exists>k \<in> set (prune_free_rectangles rnd S). contained_in rnd r k)
        \<and> \<Union> (rect_points rnd ` set (prune_free_rectangles rnd S)) = \<Union> (rect_points rnd ` set S))"
proof (intro conjI impI)
  show "\<forall>i < length S. contained_in_other rnd S i (S ! i) \<longrightarrow>
      (\<exists>j < length S. j \<noteq> i \<and> contained_in rnd (S ! i) (S ! j))"
    by (auto simp: contained_in_other_iff)
  show "set (prune_free_rectangles rnd S)
       = {S ! i | i. i < length S \<and> \<not> (\<exists>j < length S. j \<noteq> i \<and> contained_in rnd (S ! i) (S ! j))}"
    unfolding set_prune contained_in_other_iff by metis
next
  assume anti: "\<forall>i < length S. \<forall>j < length S.
          i \<noteq> j \<and> contained_in rnd (S ! i) (S ! j) \<longrightarrow> \<not> contained_in rnd (S ! j) (S ! i)"
  show above: "\<forall>r \<in> set S. \<exists>k \<in> set (prune_free_rectangles rnd S). contained_in rnd r k"
  proof
    fix r assume "r \<in> set S"
    then obtain i where i: "i < length S" "S ! i = r"
      by (auto simp: in_set_conv_nth)
    from kept_above [OF anti i(1)] obtain k where k: "k < length S"
      "contained_in rnd (S ! i) (S ! k)" "\<not> contained_in_other rnd S k (S ! k)"
      by blast
    have "S ! k \<in> set (prune_free_rectangles rnd S)"
      unfolding set_prune using k(1,3) by blast
    with k(2) i(2) show "\<exists>k \<in> set (prune_free_rectangles rnd S). contained_in rnd r k"
      by blast
  qed
  show "\<Union> (rect_points rnd ` set (prune_free_rectangles rnd S)) = \<Union> (rect_points rnd ` set S)"
  proof
    show "\<Union> (rect_points rnd ` set (prune_free_rectangles rnd S)) \<subseteq> \<Union> (rect_points rnd ` set S)"
      unfolding set_prune by (blast intro: nth_mem)
    show "\<Union> (rect_points rnd ` set S) \<subseteq> \<Union> (rect_points rnd ` set (prune_free_rectangles rnd S))"
    proof
      fix p assume "p \<in> \<Union> (rect_points rnd ` set S)"
      then obtain r where r: "r \<in> set S" "p \<in> rect_points rnd r" by blast
      from above r(1) obtain k where k: "k \<in> set (prune_free_rectangles rnd S)" "contained_in rnd r k"
        by blast
      have "p \<in> rect_points rnd k"
        using contained_in_points [OF k(2)] r(2) by blast
      with k(1) show "p \<in> \<Union> (rect_points rnd ` set (prune_free_rectangles rnd S))" by blast
    qed
  qed
qed

lemma two_rectangles_no_mutual_containment:
  "\<forall>i < length [(0, 0, 10, 10), (1, 1, 2, 2) :: rect].
     \<forall>j < length [(0, 0, 10, 10), (1, 1, 2, 2) :: rect].
       i \<noteq> j \<and> contained_in exact ([(0, 0, 10, 10), (1, 1, 2, 2)] ! i) ([(0, 0, 10, 10), (1, 1, 2, 2)] ! j)
         \<longrightarrow> \<not> contained_in exact ([(0, 0, 10, 10), (1, 1, 2, 2)] ! j) ([(0, 0, 10, 10), (1, 1, 2, 2)] ! i)"
  by (auto simp: less_Suc_eq contained_in_def exact_def)

theorem prune_only_redundant_witness:
  "prune_free_rectangles exact [(0, 0, 10, 10), (1, 1, 2, 2)] = [(0, 0, 10, 10)]
   \<and> contained_in exact (1, 1, 2, 2) (0, 0, 10, 10)
   \<and> \<Union> (rect_points exact ` set (prune_free_rectangles exact [(0, 0, 10, 10), (1, 1, 2, 2)]))
       = \<Union> (rect_points exact ` set [(0, 0, 10, 10), (1, 1, 2, 2)])"
proof -
  have p: "prune_free_rectangles exact [(0, 0, 10, 10), (1, 1, 2, 2)] = [(0, 0, 10, 10)]"
    by code_simp
  have c: "contained_in exact (1, 1, 2, 2) (0, 0, 10, 10)"
    by code_simp
  from prune_only_redundant [of "[(0, 0, 10, 10), (1, 1, 2, 2)]" exact,
         THEN conjunct2, THEN conjunct2, THEN mp, OF two_rectangles_no_mutual_containment]
  have "\<Union> (rect_points exact ` set (prune_free_rectangles exact [(0, 0, 10, 10), (1, 1, 2, 2)]))
       = \<Union> (rect_points exact ` set [(0, 0, 10, 10), (1, 1, 2, 2)])"
    by (rule conjunct2)
  with p c show ?thesis by (intro conjI)
qed

section \<open>The scan of \<open>MaxRects2D.find_best_position\<close>\<close>

lemma best_step_alt:
  "best_step rnd heuristic it (idx, r) (bs, bp, bi) =
     (if fits it r
      then (if bs = None \<or> score rnd heuristic it r < the bs
            then (Some (score rnd heuristic it r), Some (origin r), int idx)
            else (bs, bp, bi))
      else (bs, bp, bi))"
  by (cases r) (simp add: best_step_def fits_def score_def origin_def Let_def)

lemma best_inv_step:
  assumes "best_inv rnd heuristic it xs acc"
  shows "best_inv rnd heuristic it (xs @ [x]) (best_step rnd heuristic it (length xs, x) acc)"
proof (cases "\<exists>j < length xs. fits it (xs ! j)")
  case False
  then have acc: "acc = (None, None, - 1)"
    using assms by (simp add: best_inv_def)
  show ?thesis
  proof (cases "fits it x")
    case True
    have "\<exists>j < length (xs @ [x]). fits it ((xs @ [x]) ! j)"
      using True by (intro exI [of _ "length xs"]) simp
    moreover have "\<exists>k < length (xs @ [x]).
        best_step rnd heuristic it (length xs, x) acc
          = (Some (score rnd heuristic it ((xs @ [x]) ! k)), Some (origin ((xs @ [x]) ! k)), int k)
        \<and> fits it ((xs @ [x]) ! k)
        \<and> (\<forall>j < length (xs @ [x]). fits it ((xs @ [x]) ! j) \<longrightarrow>
              score rnd heuristic it ((xs @ [x]) ! k) \<le> score rnd heuristic it ((xs @ [x]) ! j))
        \<and> (\<forall>j < k. fits it ((xs @ [x]) ! j) \<longrightarrow>
              score rnd heuristic it ((xs @ [x]) ! k) < score rnd heuristic it ((xs @ [x]) ! j))"
      using True False
      by (intro exI [of _ "length xs"]) (auto simp: acc best_step_alt nth_append less_Suc_eq)
    ultimately show ?thesis
      by (simp only: best_inv_def if_True)
  next
    case nf: False
    have "\<not> (\<exists>j < length (xs @ [x]). fits it ((xs @ [x]) ! j))"
      using False nf by (auto simp: nth_append less_Suc_eq)
    then show ?thesis
      using nf by (simp add: best_inv_def acc best_step_alt)
  qed
next
  case True
  then obtain k where k: "k < length xs"
    "acc = (Some (score rnd heuristic it (xs ! k)), Some (origin (xs ! k)), int k)"
    "fits it (xs ! k)"
    "\<forall>j < length xs. fits it (xs ! j) \<longrightarrow> score rnd heuristic it (xs ! k) \<le> score rnd heuristic it (xs ! j)"
    "\<forall>j < k. fits it (xs ! j) \<longrightarrow> score rnd heuristic it (xs ! k) < score rnd heuristic it (xs ! j)"
    using assms unfolding best_inv_def by (simp only: if_True) blast
  have ex: "\<exists>j < length (xs @ [x]). fits it ((xs @ [x]) ! j)"
    using k(1,3) by (intro exI [of _ k]) (simp add: nth_append)
  show ?thesis
  proof (cases "fits it x \<and> score rnd heuristic it x < score rnd heuristic it (xs ! k)")
    case True
    have "\<exists>k' < length (xs @ [x]).
        best_step rnd heuristic it (length xs, x) acc
          = (Some (score rnd heuristic it ((xs @ [x]) ! k')), Some (origin ((xs @ [x]) ! k')), int k')
        \<and> fits it ((xs @ [x]) ! k')
        \<and> (\<forall>j < length (xs @ [x]). fits it ((xs @ [x]) ! j) \<longrightarrow>
              score rnd heuristic it ((xs @ [x]) ! k') \<le> score rnd heuristic it ((xs @ [x]) ! j))
        \<and> (\<forall>j < k'. fits it ((xs @ [x]) ! j) \<longrightarrow>
              score rnd heuristic it ((xs @ [x]) ! k') < score rnd heuristic it ((xs @ [x]) ! j))"
      using True k(4)
      by (intro exI [of _ "length xs"])
         (fastforce simp: k(2) best_step_alt nth_append less_Suc_eq)
    with ex show ?thesis
      by (simp only: best_inv_def if_True)
  next
    case False
    then have keep: "best_step rnd heuristic it (length xs, x) acc = acc"
      by (auto simp: k(2) best_step_alt)
    have "\<exists>k' < length (xs @ [x]).
        acc = (Some (score rnd heuristic it ((xs @ [x]) ! k')), Some (origin ((xs @ [x]) ! k')), int k')
        \<and> fits it ((xs @ [x]) ! k')
        \<and> (\<forall>j < length (xs @ [x]). fits it ((xs @ [x]) ! j) \<longrightarrow>
              score rnd heuristic it ((xs @ [x]) ! k') \<le> score rnd heuristic it ((xs @ [x]) ! j))
        \<and> (\<forall>j < k'. fits it ((xs @ [x]) ! j) \<longrightarrow>
              score rnd heuristic it ((xs @ [x]) ! k') < score rnd heuristic it ((xs @ [x]) ! j))"
      using False k
      by (intro exI [of _ k]) (fastforce simp: nth_append less_Suc_eq)
    with ex show ?thesis
      by (simp only: best_inv_def if_True keep)
  qed
qed

lemma best_inv_fold:
  "best_inv rnd heuristic it frs (fold (best_step rnd heuristic it) (enumerate 0 frs) (None, None, - 1))"
proof (induction frs rule: rev_induct)
  case Nil
  show ?case by (simp add: best_inv_def)
next
  case (snoc x xs)
  have "enumerate 0 (xs @ [x]) = enumerate 0 xs @ [(length xs, x)]"
    by (simp add: enumerate_append_eq)
  then show ?case
    using best_inv_step [OF snoc.IH, of x] by simp
qed


lemma lower_best_long_side_fit: "lower ''best_long_side_fit'' = ''best_long_side_fit''"
  by code_simp

lemma lower_best_short_side_fit: "lower ''best_short_side_fit'' = ''best_short_side_fit''"
  by code_simp

lemma score_long_side:
  "lower heuristic = ''best_long_side_fit'' \<Longrightarrow> score rnd heuristic it r = long_side_leftover rnd it r"
  by (cases r) (simp add: score_def long_side_leftover_def evaluate_position_def Let_def)

lemma find_best_position_inv:
  "(find_best_position rnd heuristic frs it = None \<longleftrightarrow> \<not> (\<exists>j < length frs. fits it (frs ! j)))
   \<and> (\<forall>x y k. find_best_position rnd heuristic frs it = Some (x, y, k) \<longrightarrow>
         (\<exists>i < length frs. k = int i \<and> (x, y) = origin (frs ! i) \<and> fits it (frs ! i)
            \<and> (\<forall>j < length frs. fits it (frs ! j) \<longrightarrow>
                  score rnd heuristic it (frs ! i) \<le> score rnd heuristic it (frs ! j))
            \<and> (\<forall>j < i. fits it (frs ! j) \<longrightarrow>
                  score rnd heuristic it (frs ! i) < score rnd heuristic it (frs ! j))))"
proof (cases "\<exists>j < length frs. fits it (frs ! j)")
  case False
  then have "fold (best_step rnd heuristic it) (enumerate 0 frs) (None, None, - 1) = (None, None, - 1)"
    using best_inv_fold [of rnd heuristic it frs] by (simp add: best_inv_def)
  then have "find_best_position rnd heuristic frs it = None"
    by (simp add: find_best_position_def)
  with False show ?thesis by simp
next
  case True
  then obtain k where k: "k < length frs"
    "fold (best_step rnd heuristic it) (enumerate 0 frs) (None, None, - 1)
       = (Some (score rnd heuristic it (frs ! k)), Some (origin (frs ! k)), int k)"
    "fits it (frs ! k)"
    "\<forall>j < length frs. fits it (frs ! j) \<longrightarrow> score rnd heuristic it (frs ! k) \<le> score rnd heuristic it (frs ! j)"
    "\<forall>j < k. fits it (frs ! j) \<longrightarrow> score rnd heuristic it (frs ! k) < score rnd heuristic it (frs ! j)"
    using best_inv_fold [of rnd heuristic it frs] unfolding best_inv_def
    by (simp only: if_True) blast
  have res: "find_best_position rnd heuristic frs it
               = Some (fst (origin (frs ! k)), snd (origin (frs ! k)), int k)"
    by (simp add: find_best_position_def k(2) split: prod.splits)
  show ?thesis
    using True k(1,3,4,5) by (auto simp: res)
qed

text \<open>
  C8, as stated: under \<open>best_long_side_fit\<close> the scan would keep the candidate of maximal
  score. With the free rectangles (0,0,10,10) and (20,0,5,5) and a 4x4 item, the scores
  are 6 and 1, and the scan returns the second rectangle, the one of score 1.
\<close>

theorem best_long_side_fit_counterexample:
  "find_best_position exact ''best_long_side_fit'' [(0, 0, 10, 10), (20, 0, 5, 5)] (Item ''A'' 4 4)
     = Some (20, 0, 1)
   \<and> evaluate_position exact ''best_long_side_fit'' 0 0 10 10 (Item ''A'' 4 4) = 6
   \<and> evaluate_position exact ''best_long_side_fit'' 20 0 5 5 (Item ''A'' 4 4) = 1"
  by code_simp

text \<open>
  C8, amended: under \<open>best_long_side_fit\<close>, \<open>find_best_position\<close> returns None exactly when
  no free rectangle admits the item; otherwise it returns the corner and the index of a
  free rectangle that admits the item and whose score max(leftover-width, leftover-height),
  with the two leftovers as Python computes them, is minimal among the rectangles that
  admit the item, and strictly smaller than the score of every such rectangle before it
  in the scan (ties go to the first encountered).
\<close>

theorem best_long_side_fit_keeps_minimum:
  assumes "lower heuristic = ''best_long_side_fit''"
  shows "(find_best_position rnd heuristic frs it = None \<longleftrightarrow> \<not> (\<exists>j < length frs. fits it (frs ! j)))
   \<and> (\<forall>x y k. find_best_position rnd heuristic frs it = Some (x, y, k) \<longrightarrow>
         (\<exists>i < length frs. k = int i \<and> (x, y) = origin (frs ! i) \<and> fits it (frs ! i)
            \<and> (\<forall>j < length frs. fits it (frs ! j) \<longrightarrow>
                  long_side_leftover rnd it (frs ! i) \<le> long_side_leftover rnd it (frs ! j))
            \<and> (\<forall>j < i. fits it (frs ! j) \<longrightarrow>
                  long_side_leftover rnd it (frs ! i) < long_side_leftover rnd it (frs ! j))))"
  using find_best_position_inv [of rnd heuristic frs it]
  unfolding score_long_side [OF assms] .

theorem best_long_side_fit_keeps_minimum_witness:
  "lower ''best_long_side_fit'' = ''best_long_side_fit''
   \<and> find_best_position exact ''best_long_side_fit'' [(0, 0, 10, 10), (20, 0, 5, 5)] (Item ''A'' 4 4)
       = Some (20, 0, 1)
   \<and> fits (Item ''A'' 4 4) (0, 0, 10, 10)
   \<and> long_side_leftover exact (Item ''A'' 4 4) (20, 0, 5, 5)
       \<le> long_side_leftover exact (Item ''A'' 4 4) (0, 0, 10, 10)"
proof -
  have f: "find_best_position exact ''best_long_side_fit'' [(0, 0, 10, 10), (20, 0, 5, 5)] (Item ''A'' 4 4)
             = Some (20, 0, 1)"
    by code_simp
  have a: "fits (Item ''A'' 4 4) (0, 0, 10, 10)"
    by (simp add: fits_def Item_def)
  from best_long_side_fit_keeps_minimum [OF lower_best_long_side_fit,
         where rnd = exact and frs = "[(0, 0, 10, 10), (20, 0, 5, 5)]" and it = "Item ''A'' 4 4"] f
  obtain i where i: "i < 2" "(1::int) = int i"
    "\<forall>j < length [(0, 0, 10, 10), (20, 0, 5, 5) :: rect].
        fits (Item ''A'' 4 4) ([(0, 0, 10, 10), (20, 0, 5, 5)] ! j) \<longrightarrow>
        long_side_leftover exact (Item ''A'' 4 4) ([(0, 0, 10, 10), (20, 0, 5, 5)] ! i)
          \<le> long_side_leftover exact (Item ''A'' 4 4) ([(0, 0, 10, 10), (20, 0, 5, 5)] ! j)"
    by auto
  from i(2) have "i = 1" by simp
  with i(3) [THEN spec, of 0] a
  have "long_side_leftover exact (Item ''A'' 4 4) (20, 0, 5, 5)
          \<le> long_side_leftover exact (Item ''A'' 4 4) (0, 0, 10, 10)"
    by simp
  with f a lower_best_long_side_fit show ?thesis by simp
qed

section \<open>Unknown heuristic names\<close>

lemma guillotine_find_position_single:
  "guillotine_find_position [(rx, ry, rw, rh)] it
     = (if fits it (rx, ry, rw, rh) then Some (rx, ry, 0) else None)"
  by (simp add: guillotine_find_position_def fits_def enumerate_eq_zip)

lemma split_rectangle_unknown:
  assumes "remove_char (CHR ''_'') (remove_char (CHR '' '') (lower h))
             \<notin> set [''default'', ''alternative'', ''shorterside'', ''shorter'', ''longerside'', ''longer'']"
  shows "split_rectangle rnd h rect it x y = Inl (UnknownHeuristic h)"
  using assms by (simp add: split_rectangle_def Let_def)

lemma guillotine_items_unknown:
  assumes "remove_char (CHR ''_'') (remove_char (CHR '' '') (lower h))
             \<notin> set [''default'', ''alternative'', ''shorterside'', ''shorter'', ''longerside'', ''longer'']"
  shows "if \<exists>r \<in> set its. fits (st ! r) (0, 0, w, h')
         then \<exists>st' b'. guillotine_items rnd h st b [(0, 0, w, h')] its = Inl (UnknownHeuristic h, st', b')
         else guillotine_items rnd h st b [(0, 0, w, h')] its = Inr (st, b, [(0, 0, w, h')])"
proof (induction its)
  case Nil
  show ?case by simp
next
  case (Cons r rs)
  show ?case
  proof (cases "fits (st ! r) (0, 0, w, h')")
    case True
    then show ?thesis
      by (simp add: guillotine_find_position_single split_rectangle_unknown [OF assms] Let_def)
  next
    case False
    then show ?thesis
      using Cons.IH by (simp add: guillotine_find_position_single)
  qed
qed

lemma guillotine_pack_unknown:
  assumes "remove_char (CHR ''_'') (remove_char (CHR '' '') (lower h))
             \<notin> set [''default'', ''alternative'', ''shorterside'', ''shorter'', ''longerside'', ''longer'']"
  shows "if \<exists>b \<in> set bins. \<exists>r \<in> set its. fits (st ! r) (0, 0, bin_width b, bin_height b)
         then \<exists>st' bs'. guillotine_pack rnd h st its bins = Inl (UnknownHeuristic h, st', bs')
         else guillotine_pack rnd h st its bins = Inr (st, bins)"
proof (induction bins)
  case Nil
  show ?case by simp
next
  case (Cons b bs)
  show ?case
  proof (cases "\<exists>r \<in> set its. fits (st ! r) (0, 0, bin_width b, bin_height b)")
    case True
    then obtain st' b' where
      "guillotine_items rnd h st b [(0, 0, bin_width b, bin_height b)] its = Inl (UnknownHeuristic h, st', b')"
      using guillotine_items_unknown [OF assms, where its = its and st = st and w = "bin_width b"
              and h' = "bin_height b" and b = b and rnd = rnd]
      by (simp only: if_True) blast
    with True show ?thesis by auto
  next
    case False
    then have first: "guillotine_items rnd h st b [(0, 0, bin_width b, bin_height b)] its
                        = Inr (st, b, [(0, 0, bin_width b, bin_height b)])"
      using guillotine_items_unknown [OF assms, where its = its and st = st and w = "bin_width b"
              and h' = "bin_height b" and b = b and rnd = rnd]
      by (simp only: if_False)
    show ?thesis
    proof (cases "\<exists>b \<in> set bs. \<exists>r \<in> set its. fits (st ! r) (0, 0, bin_width b, bin_height b)")
      case True
      then obtain st' bs' where "guillotine_pack rnd h st its bs = Inl (UnknownHeuristic h, st', bs')"
        using Cons.IH by (simp only: if_True) blast
      with True show ?thesis by (auto simp: first)
    next
      case nb: False
      then have "guillotine_pack rnd h st its bs = Inr (st, bs)"
        using Cons.IH by (simp only: if_False)
      with False nb show ?thesis by (simp add: first)
    qed
  qed
qed

lemma evaluate_position_unknown:
  assumes "lower h \<notin> set [''best_short_side_fit'', ''best_long_side_fit'', ''best_area_fit'',
                              ''bottom_left'', ''contact_point_rule'']"
  shows "evaluate_position rnd h = evaluate_position rnd ''best_short_side_fit''"
  using assms
  by (intro ext) (simp add: evaluate_position_def Let_def lower_best_short_side_fit)

lemma find_best_position_unknown:
  assumes "lower h \<notin> set [''best_short_side_fit'', ''best_long_side_fit'', ''best_area_fit'',
                              ''bottom_left'', ''contact_point_rule'']"
  shows "find_best_position rnd h = find_best_position rnd ''best_short_side_fit''"
proof -
  have "best_step rnd h = best_step rnd ''best_short_side_fit''"
    unfolding best_step_def evaluate_position_unknown [OF assms] ..
  then show ?thesis
    by (intro ext) (simp add: find_best_position_def)
qed

lemma maxrects_items_unknown:
  assumes "lower h \<notin> set [''best_short_side_fit'', ''best_long_side_fit'', ''best_area_fit'',
                              ''bottom_left'', ''contact_point_rule'']"
  shows "maxrects_items rnd h st b frs its = maxrects_items rnd ''best_short_side_fit'' st b frs its"
  by (induction its arbitrary: st b frs)
     (simp_all add: find_best_position_unknown [OF assms] Let_def split: option.splits prod.splits)

lemma maxrects_pack_unknown:
  assumes "lower h \<notin> set [''best_short_side_fit'', ''best_long_side_fit'', ''best_area_fit'',
                              ''bottom_left'', ''contact_point_rule'']"
  shows "maxrects_pack rnd h st its bins = maxrects_pack rnd ''best_short_side_fit'' st its bins"
  by (induction bins arbitrary: st)
     (simp_all add: maxrects_items_unknown [OF assms] split: prod.splits sum.splits)

lemma maxrects_pack_returns: "\<exists>res. maxrects_pack rnd h st its bins = Inr res"
proof (induction bins arbitrary: st)
  case Nil
  show ?case by simp
next
  case (Cons b bs)
  obtain st' b' frs where m: "maxrects_items rnd h st b [(0, 0, bin_width b, bin_height b)] its = (st', b', frs)"
    by (cases "maxrects_items rnd h st b [(0, 0, bin_width b, bin_height b)] its") auto
  from Cons.IH [of st'] obtain res where "maxrects_pack rnd h st' its bs = Inr res" by blast
  then show ?case by (cases res) (simp add: m)
qed

text \<open>
  C3, as stated: with an unknown heuristic name both \<open>pack\<close> methods would raise before
  any item is processed. With the name \<open>foo\<close>, one 10x10 bin and one 3x3 item,
  \<open>MaxRects2D.pack\<close> returns normally with the item placed, and \<open>Guillotine2D.pack\<close>
  raises only after the item is in the item list of the bin; with a 30x3 item, which fits
  nowhere, \<open>Guillotine2D.pack\<close> returns normally.
\<close>

theorem unknown_heuristic_counterexample:
  "maxrects_pack exact ''foo'' [Item ''A'' 3 3] [0] [Bin ''bin_0'' 10 10 None]
     = Inr ([Item ''A'' 3 3],
            [(Bin ''bin_0'' 10 10 None)
               \<lparr>items := [0], free_rectangles := Some [(0, 3, 10, 7), (3, 0, 7, 10)]\<rparr>])
   \<and> guillotine_pack exact ''foo'' [Item ''A'' 3 3] [0] [Bin ''bin_0'' 10 10 None]
     = Inl (UnknownHeuristic ''foo'', [Item ''A'' 3 3], [(Bin ''bin_0'' 10 10 None)\<lparr>items := [0]\<rparr>])
   \<and> guillotine_pack exact ''foo'' [Item ''A'' 30 3] [0] [Bin ''bin_0'' 10 10 None]
     = Inr ([Item ''A'' 30 3], [Bin ''bin_0'' 10 10 None])"
  by code_simp

text \<open>
  C3, amended, for each class and its own list of admitted names. For a name that matches
  none of the names admitted by \<open>Guillotine2D\<close>, \<open>Guillotine2D.split_rectangle\<close> fails with
  the configuration error, so \<open>Guillotine2D.pack\<close> fails with it whenever some item fits
  some bin. \<open>MaxRects2D.pack\<close> never fails, whatever the name; for a name that matches none
  of the names admitted by \<open>MaxRects2D\<close> it packs as under \<open>best_short_side_fit\<close>.
\<close>

theorem unknown_heuristic_behaviour:
  "(remove_char (CHR ''_'') (remove_char (CHR '' '') (lower h))
      \<notin> set [''default'', ''alternative'', ''shorterside'', ''shorter'', ''longerside'', ''longer'']
    \<longrightarrow> split_rectangle rnd h rect it x y = Inl (UnknownHeuristic h)
        \<and> ((\<exists>b \<in> set bins. \<exists>r \<in> set its. fits (st ! r) (0, 0, bin_width b, bin_height b)) \<longrightarrow>
             (\<exists>st' bs'. guillotine_pack rnd h st its bins = Inl (UnknownHeuristic h, st', bs'))))
   \<and> (\<exists>res. maxrects_pack rnd h st its bins = Inr res)
   \<and> (lower h \<notin> set [''best_short_side_fit'', ''best_long_side_fit'', ''best_area_fit'',
                        ''bottom_left'', ''contact_point_rule'']
      \<longrightarrow> maxrects_pack rnd h st its bins = maxrects_pack rnd ''best_short_side_fit'' st its bins)"
proof (intro conjI impI)
  assume g: "remove_char (CHR ''_'') (remove_char (CHR '' '') (lower h))
      \<notin> set [''default'', ''alternative'', ''shorterside'', ''shorter'', ''longerside'', ''longer'']"
  show "split_rectangle rnd h rect it x y = Inl (UnknownHeuristic h)"
    by (rule split_rectangle_unknown [OF g])
  assume "\<exists>b \<in> set bins. \<exists>r \<in> set its. fits (st ! r) (0, 0, bin_width b, bin_height b)"
  then show "\<exists>st' bs'. guillotine_pack rnd h st its bins = Inl (UnknownHeuristic h, st', bs')"
    using guillotine_pack_unknown [OF g, where bins = bins and its = its and st = st and rnd = rnd] by (simp only: if_True)
next
  show "\<exists>res. maxrects_pack rnd h st its bins = Inr res"
    by (rule maxrects_pack_returns)
next
  assume m: "lower h \<notin> set [''best_short_side_fit'', ''best_long_side_fit'', ''best_area_fit'',
                        ''bottom_left'', ''contact_point_rule'']"
  show "maxrects_pack rnd h st its bins = maxrects_pack rnd ''best_short_side_fit'' st its bins"
    by (rule maxrects_pack_unknown [OF m])
qed

text \<open>
  The name \<open>bottom_left\<close> is admitted by \<open>MaxRects2D\<close> and unknown to \<open>Guillotine2D\<close>; the
  name \<open>default\<close> is admitted by \<open>Guillotine2D\<close> and unknown to \<open>MaxRects2D\<close>.
\<close>

lemma bottom_left_guillotine_key:
  "remove_char (CHR ''_'') (remove_char (CHR '' '') (lower ''bottom_left'')) = ''bottomleft''"
  by code_simp

lemma lower_default: "lower ''default'' = ''default''"
  by code_simp

theorem unknown_heuristic_behaviour_witness:
  "split_rectangle exact ''bottom_left'' (0, 0, 10, 10) (Item ''A'' 3 3) 0 0
     = Inl (UnknownHeuristic ''bottom_left'')
   \<and> (\<exists>st' bs'. guillotine_pack exact ''bottom_left'' [Item ''A'' 3 3] [0] [Bin ''bin_0'' 10 10 None]
                   = Inl (UnknownHeuristic ''bottom_left'', st', bs'))
   \<and> maxrects_pack exact ''default'' [Item ''A'' 3 3] [0] [Bin ''bin_0'' 10 10 None]
       = maxrects_pack exact ''best_short_side_fit'' [Item ''A'' 3 3] [0] [Bin ''bin_0'' 10 10 None]"
proof -
  have k1: "remove_char (CHR ''_'') (remove_char (CHR '' '') (lower ''bottom_left''))
              \<notin> set [''default'', ''alternative'', ''shorterside'', ''shorter'', ''longerside'', ''longer'']"
    by (simp add: bottom_left_guillotine_key)
  have k2: "lower ''default'' \<notin> set [''best_short_side_fit'', ''best_long_side_fit'', ''best_area_fit'',
                                    ''bottom_left'', ''contact_point_rule'']"
    by (simp add: lower_default)
  have f: "\<exists>b \<in> set [Bin ''bin_0'' 10 10 None]. \<exists>r \<in> set [0].
             fits ([Item ''A'' 3 3] ! r) (0, 0, bin_width b, bin_height b)"
    by (simp add: fits_def Item_def Bin_def)
  note g = unknown_heuristic_behaviour [where h = "''bottom_left''" and rnd = exact
          and bins = "[Bin ''bin_0'' 10 10 None]"
          and its = "[0]" and st = "[Item ''A'' 3 3]" and rect = "(0, 0, 10, 10)"
          and it = "Item ''A'' 3 3" and x = 0 and y = 0, THEN conjunct1, THEN mp, OF k1]
  note m = unknown_heuristic_behaviour [where h = "''default''" and rnd = exact
          and bins = "[Bin ''bin_0'' 10 10 None]"
          and its = "[0]" and st = "[Item ''A'' 3 3]",
          THEN conjunct2, THEN conjunct2, THEN mp, OF k2]
  from g f m show ?thesis by blast
qed

section \<open>Bottom-Left: no overlap, and inside the bin\<close>

lemma bin_ok_properties: "bin_ok rnd st b \<Longrightarrow> no_overlaps rnd st b \<and> within_bounds rnd st b"
  by (simp add: bin_ok_def no_overlaps_def within_bounds_def list_all_iff)

lemma items_overlap_sym: "items_overlap rnd st p q = items_overlap rnd st q p"
  by (auto simp: items_overlap_def rectangles_overlap_def)

lemma nth_update_other: "r \<notin> set ps \<Longrightarrow> p \<in> set ps \<Longrightarrow> st[r := v] ! p = st ! p"
  by (cases "p = r") simp_all

lemma bin_ok_update:
  assumes "bin_ok rnd st b" and "r \<notin> set (items b)"
  shows "bin_ok rnd (st[r := v]) b"
proof -
  note same = nth_update_other [OF assms(2)]
  show ?thesis
    using assms(1) unfolding bin_ok_def items_overlap_def
    by (simp add: same)
qed

lemma find_position_valid:
  assumes "find_position rnd st b it = Some (x, y)"
  shows "(x, y) \<in> set (valid_candidates rnd st b it)"
proof -
  obtain rest where "sort_key (\<lambda>pos. (snd pos, fst pos)) (valid_candidates rnd st b it) = (x, y) # rest"
    using assms by (auto simp: find_position_def split: list.splits)
  then have "(x, y) \<in> set (sort_key (\<lambda>pos. (snd pos, fst pos)) (valid_candidates rnd st b it))"
    by simp
  then show ?thesis by simp
qed

lemma bin_ok_intro:
  assumes "no_overlaps rnd st b" and "within_bounds rnd st b"
    and "\<forall>p \<in> set (items b). p < length st \<and> 0 < item_width (st ! p) \<and> 0 < item_height (st ! p)"
  shows "bin_ok rnd st b"
  using assms
  by (simp add: bin_ok_def no_overlaps_def within_bounds_def list_all_iff less_imp_le)

lemma candidate_nonneg:
  assumes nn: "\<forall>a. 0 \<le> a \<longrightarrow> 0 \<le> rnd a"
    and ok: "bin_ok rnd st b" and c: "(x, y) \<in> set (candidate_positions rnd st b)"
  shows "0 \<le> x \<and> 0 \<le> y"
proof -
  from c consider "(x, y) = (0, 0)"
    | p where "p \<in> set (items b)"
        "(x, y) = (rnd (item_x (st ! p) + item_width (st ! p)), item_y (st ! p))"
    | p where "p \<in> set (items b)"
        "(x, y) = (item_x (st ! p), rnd (item_y (st ! p) + item_height (st ! p)))"
    unfolding candidate_positions_def by auto
  then show ?thesis
  proof cases
    case 1
    then show ?thesis by simp
  next
    case (2 p)
    then have "0 \<le> item_x (st ! p) + item_width (st ! p)" "0 \<le> item_y (st ! p)"
      using ok unfolding bin_ok_def by (simp_all add: add_nonneg_nonneg)
    with nn 2(2) show ?thesis by simp
  next
    case (3 p)
    then have "0 \<le> item_y (st ! p) + item_height (st ! p)" "0 \<le> item_x (st ! p)"
      using ok unfolding bin_ok_def by (simp_all add: add_nonneg_nonneg)
    with nn 3(2) show ?thesis by simp
  qed
qed

lemma find_position_sound:
  assumes nn: "\<forall>a. 0 \<le> a \<longrightarrow> 0 \<le> rnd a"
    and "bin_ok rnd st b" and "find_position rnd st b it = Some (x, y)"
  shows "0 \<le> x \<and> 0 \<le> y \<and> rnd (x + item_width it) \<le> bin_width b
         \<and> rnd (y + item_height it) \<le> bin_height b
         \<and> (\<forall>p \<in> set (items b).
               \<not> rectangles_overlap rnd x y (item_width it) (item_height it)
                    (item_x (st ! p)) (item_y (st ! p)) (item_width (st ! p)) (item_height (st ! p)))"
proof -
  have v: "(x, y) \<in> set (valid_candidates rnd st b it)"
    by (rule find_position_valid [OF assms(3)])
  then have c: "(x, y) \<in> set (candidate_positions rnd st b)"
    by (simp add: valid_candidates_def)
  from v have "rnd (x + item_width it) \<le> bin_width b" "rnd (y + item_height it) \<le> bin_height b"
    "\<not> overlap rnd st b it x y"
    by (simp_all add: valid_candidates_def)
  then show ?thesis
    using candidate_nonneg [OF nn assms(2) c] by (simp add: overlap_def list_ex_iff)
qed

lemma bin_ok_append:
  assumes ok: "bin_ok rnd st b" and new: "r \<notin> set (items b)" and r: "r < length st"
    and pos: "0 \<le> x" "0 \<le> y" "0 \<le> item_width (st ! r)" "0 \<le> item_height (st ! r)"
      "rnd (x + item_width (st ! r)) \<le> bin_width b" "rnd (y + item_height (st ! r)) \<le> bin_height b"
    and free: "\<forall>p \<in> set (items b).
               \<not> rectangles_overlap rnd x y (item_width (st ! r)) (item_height (st ! r))
                    (item_x (st ! p)) (item_y (st ! p)) (item_width (st ! p)) (item_height (st ! p))"
  shows "bin_ok rnd (st[r := set_position (st ! r) x y]) (b\<lparr>items := items b @ [r]\<rparr>)"
proof -
  let ?st = "st[r := set_position (st ! r) x y]"
  have old: "bin_ok rnd ?st b" by (rule bin_ok_update [OF ok new])
  have ne: "\<And>p. p \<in> set (items b) \<Longrightarrow> p \<noteq> r"
    using new by blast
  have rr: "?st ! r = set_position (st ! r) x y"
    using r by simp
  have pr: "\<And>p. p \<in> set (items b) \<Longrightarrow> \<not> items_overlap rnd ?st r p"
    using free r by (simp add: items_overlap_def nth_update_other [OF new] set_position_def)
  have rp: "\<And>p. p \<in> set (items b) \<Longrightarrow> \<not> items_overlap rnd ?st p r"
    using pr by (simp add: items_overlap_sym)
  have bounds: "r < length ?st \<and> 0 \<le> item_x (?st ! r) \<and> 0 \<le> item_y (?st ! r)
         \<and> 0 \<le> item_width (?st ! r) \<and> 0 \<le> item_height (?st ! r)
         \<and> rnd (item_x (?st ! r) + item_width (?st ! r)) \<le> bin_width b
         \<and> rnd (item_y (?st ! r) + item_height (?st ! r)) \<le> bin_height b"
    using r pos by (simp add: set_position_def)
  show ?thesis
    unfolding bin_ok_def
  proof (rule conjI; intro ballI)
    fix p assume "p \<in> set (items (b\<lparr>items := items b @ [r]\<rparr>))"
    then have "p \<in> set (items b) \<or> p = r" by auto
    then show "p < length ?st \<and> 0 \<le> item_x (?st ! p) \<and> 0 \<le> item_y (?st ! p)
         \<and> 0 \<le> item_width (?st ! p) \<and> 0 \<le> item_height (?st ! p)
         \<and> rnd (item_x (?st ! p) + item_width (?st ! p)) \<le> bin_width (b\<lparr>items := items b @ [r]\<rparr>)
         \<and> rnd (item_y (?st ! p) + item_height (?st ! p)) \<le> bin_height (b\<lparr>items := items b @ [r]\<rparr>)"
    proof
      assume "p \<in> set (items b)"
      with old show ?thesis unfolding bin_ok_def by simp
    next
      assume "p = r"
      with bounds show ?thesis by (simp add: r)
    qed
  next
    fix p q
    assume "p \<in> set (items (b\<lparr>items := items b @ [r]\<rparr>))"
      and "q \<in> set (items (b\<lparr>items := items b @ [r]\<rparr>))"
    then have p: "p \<in> set (items b) \<or> p = r" and q: "q \<in> set (items b) \<or> q = r" by auto
    from old have oo: "\<And>p q. p \<in> set (items b) \<Longrightarrow> q \<in> set (items b) \<Longrightarrow> p = q \<or> \<not> items_overlap rnd ?st p q"
      unfolding bin_ok_def by blast
    from p q show "p = q \<or> \<not> items_overlap rnd ?st p q"
      using oo pr rp by blast
  qed
qed

lemma bin_ok_add_item:
  assumes nn: "\<forall>a. 0 \<le> a \<longrightarrow> 0 \<le> rnd a"
    and ok: "bin_ok rnd st b" and new: "r \<notin> set (items b)" and r: "r < length st"
    and dims: "0 \<le> item_width (st ! r)" "0 \<le> item_height (st ! r)"
    and fp: "find_position rnd st b (st ! r) = Some (x, y)"
  shows "bin_ok rnd (st[r := set_position (st ! r) x y])
                (fst (add_item (st[r := set_position (st ! r) x y]) b r))"
proof (cases "can_fit b ((st[r := set_position (st ! r) x y]) ! r)")
  case True
  then have "fst (add_item (st[r := set_position (st ! r) x y]) b r) = b\<lparr>items := items b @ [r]\<rparr>"
    by (simp add: add_item_def)
  then show ?thesis
    using bin_ok_append [OF ok new r _ _ dims] find_position_sound [OF nn ok fp] by simp
next
  case False
  then have "fst (add_item (st[r := set_position (st ! r) x y]) b r) = b"
    by (simp add: add_item_def)
  then show ?thesis
    using bin_ok_update [OF ok new] by simp
qed


lemma can_fit_dims: "can_fit b it \<Longrightarrow> item_width it \<le> bin_width b \<and> item_height it \<le> bin_height b"
  by (auto simp: can_fit_def split: option.splits)

lemma items_add_item: "set (items (fst (add_item st b r))) \<subseteq> insert r (set (items b))"
  by (auto simp: add_item_def)

lemma bottom_left_place_sound:
  assumes nn: "\<forall>a. 0 \<le> a \<longrightarrow> 0 \<le> rnd a"
    and "\<forall>b \<in> set bins. bin_ok rnd st b" and "r \<notin> placed bins" and "r < length st"
    and "0 \<le> item_width (st ! r)" and "0 \<le> item_height (st ! r)"
    and "bottom_left_place rnd st r bins = Some (st', bins')"
  shows "(\<forall>b \<in> set bins'. bin_ok rnd st' b) \<and> placed bins' \<subseteq> insert r (placed bins) \<and> bins' \<noteq> []
         \<and> (\<exists>v. st' = st[r := v] \<and> item_width v = item_width (st ! r)
                \<and> item_height v = item_height (st ! r))"
  using assms
proof (induction bins arbitrary: bins')
  case Nil
  then show ?case by simp
next
  case (Cons b bs)
  have rb: "r \<notin> set (items b)" and rbs: "r \<notin> placed bs"
    using Cons.prems(3) by (simp_all add: placed_def)
  have okb: "bin_ok rnd st b" and okbs: "\<forall>c \<in> set bs. bin_ok rnd st c"
    using Cons.prems(2) by simp_all
  have upd: "\<And>v c. c \<in> set bs \<Longrightarrow> bin_ok rnd (st[r := v]) c"
  proof -
    fix v c assume c: "c \<in> set bs"
    then have "r \<notin> set (items c)" using rbs by (auto simp: placed_def)
    with okbs c show "bin_ok rnd (st[r := v]) c" by (simp add: bin_ok_update)
  qed
  show ?case
  proof (cases "find_position rnd st b (st ! r)")
    case (Some c)
    obtain x y where c: "c = (x, y)" by (cases c)
    let ?st = "st[r := set_position (st ! r) x y]"
    have res: "st' = ?st" "bins' = fst (add_item ?st b r) # bs"
      using Cons.prems(7) Some c by (auto simp: Let_def)
    have first: "bin_ok rnd ?st (fst (add_item ?st b r))"
      using bin_ok_add_item [OF nn okb rb Cons.prems(4) Cons.prems(5) Cons.prems(6)] Some c by simp
    have "placed bins' \<subseteq> insert r (placed (b # bs))"
      using items_add_item [of ?st b r] by (auto simp: res placed_def)
    moreover have "\<forall>c \<in> set bins'. bin_ok rnd st' c"
      using first upd by (simp add: res)
    moreover have "\<exists>v. st' = st[r := v] \<and> item_width v = item_width (st ! r)
                \<and> item_height v = item_height (st ! r)"
      by (intro exI [of _ "set_position (st ! r) x y"]) (simp add: res set_position_def)
    ultimately show ?thesis by (simp add: res)
  next
    case None
    then obtain bs' where rec: "bottom_left_place rnd st r bs = Some (st', bs')" and res: "bins' = b # bs'"
      using Cons.prems(7) by (auto split: option.splits)
    note ih = Cons.IH [OF nn okbs rbs Cons.prems(4) Cons.prems(5) Cons.prems(6) rec]
    from ih obtain v where v: "st' = st[r := v]" "item_width v = item_width (st ! r)"
      "item_height v = item_height (st ! r)" by blast
    have "bin_ok rnd st' b" unfolding v(1) by (rule bin_ok_update [OF okb rb])
    moreover have "placed bins' \<subseteq> insert r (placed (b # bs))"
      using ih by (auto simp: res placed_def)
    ultimately show ?thesis using ih v by (auto simp: res)
  qed
qed

lemma bin_ok_new_bin:
  assumes "r < length st" and "0 \<le> item_width (st ! r)" and "0 \<le> item_height (st ! r)"
    and dbl: "rnd (item_width (st ! r)) = item_width (st ! r)"
      "rnd (item_height (st ! r)) = item_height (st ! r)"
  shows "bin_ok rnd (st[r := set_position (st ! r) 0 0])
                (fst (add_item (st[r := set_position (st ! r) 0 0]) (new_bin bins) r))"
proof -
  let ?st = "st[r := set_position (st ! r) 0 0]"
  let ?nb = "new_bin bins"
  have e: "items ?nb = []" by (simp add: new_bin_def Bin_def)
  have ok: "bin_ok rnd st ?nb" by (simp add: bin_ok_def e)
  have new: "r \<notin> set (items ?nb)" by (simp add: e)
  have sr: "?st ! r = set_position (st ! r) 0 0" using assms(1) by simp
  show ?thesis
  proof (cases "can_fit ?nb (?st ! r)")
    case True
    then have d: "item_width (st ! r) \<le> bin_width ?nb" "item_height (st ! r) \<le> bin_height ?nb"
      using can_fit_dims [OF True] by (simp_all add: assms(1) set_position_def)
    have "fst (add_item ?st ?nb r) = ?nb\<lparr>items := items ?nb @ [r]\<rparr>"
      using True by (simp add: add_item_def)
    then show ?thesis
      using bin_ok_append [OF ok new assms(1), of 0 0] assms(2,3) d by (simp add: e dbl)
  next
    case False
    then have "fst (add_item ?st ?nb r) = ?nb" by (simp add: add_item_def)
    then show ?thesis using bin_ok_update [OF ok new] by simp
  qed
qed

lemma bottom_left_pack_sound:
  assumes nn: "\<forall>a. 0 \<le> a \<longrightarrow> 0 \<le> rnd a"
    and "\<forall>b \<in> set bins. bin_ok rnd st b" and "bins \<noteq> []" and "distinct its"
    and "set its \<inter> placed bins = {}"
    and "\<forall>r \<in> set its. r < length st \<and> 0 \<le> item_width (st ! r) \<and> 0 \<le> item_height (st ! r)
           \<and> rnd (item_width (st ! r)) = item_width (st ! r)
           \<and> rnd (item_height (st ! r)) = item_height (st ! r)"
  shows "\<exists>st' bins'. bottom_left_pack rnd st its bins = Inr (st', bins')
           \<and> (\<forall>b \<in> set bins'. bin_ok rnd st' b)"
  using assms
proof (induction its arbitrary: st bins)
  case Nil
  then show ?case by simp
next
  case (Cons r rs)
  have r: "r < length st" "0 \<le> item_width (st ! r)" "0 \<le> item_height (st ! r)"
    and dbl: "rnd (item_width (st ! r)) = item_width (st ! r)"
      "rnd (item_height (st ! r)) = item_height (st ! r)"
    using Cons.prems(6) by simp_all
  have rp: "r \<notin> placed bins" using Cons.prems(5) by simp
  have rrs: "r \<notin> set rs" and drs: "distinct rs" using Cons.prems(4) by simp_all
  have keep: "\<forall>q \<in> set rs. q < length (st[r := v]) \<and> 0 \<le> item_width (st[r := v] ! q)
                       \<and> 0 \<le> item_height (st[r := v] ! q)
                       \<and> rnd (item_width (st[r := v] ! q)) = item_width (st[r := v] ! q)
                       \<and> rnd (item_height (st[r := v] ! q)) = item_height (st[r := v] ! q)" for v
    using Cons.prems(6) rrs by (simp add: nth_update_other [of r rs])
  show ?case
  proof (cases "bottom_left_place rnd st r bins")
    case (Some res)
    obtain st1 bins1 where res: "res = (st1, bins1)" by (cases res)
    note s = bottom_left_place_sound [OF nn Cons.prems(2) rp r Some [unfolded res]]
    from s obtain v where v: "st1 = st[r := v]" by blast
    have disj: "set rs \<inter> placed bins1 = {}"
      using s Cons.prems(5) rrs by auto
    have "\<exists>st' bins'. bottom_left_pack rnd st1 rs bins1 = Inr (st', bins')
            \<and> (\<forall>b \<in> set bins'. bin_ok rnd st' b)"
      using Cons.IH [of bins1 st1] nn s drs disj keep [of v] by (simp add: v)
    then show ?thesis by (simp add: Some res)
  next
    case None
    let ?st = "st[r := set_position (st ! r) 0 0]"
    let ?nb = "fst (add_item ?st (new_bin bins) r)"
    have old: "\<forall>b \<in> set bins. bin_ok rnd ?st b"
    proof
      fix b assume b: "b \<in> set bins"
      then have "r \<notin> set (items b)" using rp by (auto simp: placed_def)
      with Cons.prems(2) b show "bin_ok rnd ?st b" by (simp add: bin_ok_update)
    qed
    have all: "\<forall>b \<in> set (bins @ [?nb]). bin_ok rnd ?st b"
      using old bin_ok_new_bin [OF r dbl, of bins] by simp
    have "placed (bins @ [?nb]) \<subseteq> insert r (placed bins)"
      using items_add_item [of ?st "new_bin bins" r] by (auto simp: placed_def new_bin_def Bin_def)
    then have disj: "set rs \<inter> placed (bins @ [?nb]) = {}"
      using Cons.prems(5) rrs by auto
    have "\<exists>st' bins'. bottom_left_pack rnd ?st rs (bins @ [?nb]) = Inr (st', bins')
            \<and> (\<forall>b \<in> set bins'. bin_ok rnd st' b)"
      using Cons.IH [of "bins @ [?nb]" ?st] nn all drs disj keep [of "set_position (st ! r) 0 0"]
      by simp
    then show ?thesis using Cons.prems(3) by (simp add: None Let_def)
  qed
qed

text \<open>
  C2, as stated for every run: after \<open>BottomLeft2D.pack\<close> no two different items of a
  bin's item list would overlap. An item object that is listed twice, or that is already
  in a bin, is moved by its second placement while it stays in the item list of the
  first. With a 3x3 bin and the items C (3x1), A (3x2), A: C goes to (0,0) and A to (0,1);
  the second A finds no position in the bin, an overflow bin is appended and A is set to
  (0,0), on top of C in the first bin. Likewise for a run with the items A on a bin that
  already holds C at (0,0) and A at (0,1).
\<close>

theorem bottom_left_repeated_item_counterexample:
  "bottom_left_pack exact [Item ''C'' 3 1, Item ''A'' 3 2] [0, 1, 1] [Bin ''bin_1'' 3 3 None]
     = Inr ([Item ''C'' 3 1, Item ''A'' 3 2],
            [(Bin ''bin_1'' 3 3 None)\<lparr>items := [0, 1]\<rparr>, (Bin ''bin_2'' 3 3 None)\<lparr>items := [1]\<rparr>])
   \<and> items_overlap exact [Item ''C'' 3 1, Item ''A'' 3 2] 0 1
   \<and> \<not> no_overlaps exact [Item ''C'' 3 1, Item ''A'' 3 2] ((Bin ''bin_1'' 3 3 None)\<lparr>items := [0, 1]\<rparr>)
   \<and> no_overlaps exact [Item ''C'' 3 1, set_position (Item ''A'' 3 2) 0 1]
        ((Bin ''bin_1'' 3 3 None)\<lparr>items := [0, 1]\<rparr>)
   \<and> within_bounds exact [Item ''C'' 3 1, set_position (Item ''A'' 3 2) 0 1]
        ((Bin ''bin_1'' 3 3 None)\<lparr>items := [0, 1]\<rparr>)
   \<and> bottom_left_pack exact [Item ''C'' 3 1, set_position (Item ''A'' 3 2) 0 1] [1]
        [(Bin ''bin_1'' 3 3 None)\<lparr>items := [0, 1]\<rparr>]
     = Inr ([Item ''C'' 3 1, Item ''A'' 3 2],
            [(Bin ''bin_1'' 3 3 None)\<lparr>items := [0, 1]\<rparr>, (Bin ''bin_2'' 3 3 None)\<lparr>items := [1]\<rparr>])"
  by code_simp

text \<open>
  C2, amended. The sizes are doubles (a size is not changed by rounding), and rounding a
  non-negative sum gives a non-negative double. \<open>BottomLeft2D.pack\<close>, run on items of
  strictly positive width and height, each item object listed once and none of them in
  the item list of a bin yet, and on a non-empty list of bins in which the two properties
  already hold (as in bins that hold no item), returns, and after it in every bin of the
  result no two different items of the item list overlap (a shared edge is no overlap)
  and every item of the list has \<open>x \<ge> 0\<close>, \<open>y \<ge> 0\<close>, \<open>x + width \<le> bin.width\<close> and
  \<open>y + height \<le> bin.height\<close>, the sums being the ones Python computes.
\<close>

theorem bottom_left_no_overlap_in_bounds:
  assumes "\<forall>a. 0 \<le> a \<longrightarrow> 0 \<le> rnd a"
    and "bins \<noteq> []"
    and "\<forall>b \<in> set bins. no_overlaps rnd st b \<and> within_bounds rnd st b"
    and "distinct its"
    and "\<forall>b \<in> set bins. set its \<inter> set (items b) = {}"
    and "\<forall>r \<in> set its. r < length st \<and> 0 < item_width (st ! r) \<and> 0 < item_height (st ! r)
           \<and> rnd (item_width (st ! r)) = item_width (st ! r)
           \<and> rnd (item_height (st ! r)) = item_height (st ! r)"
    and "\<forall>b \<in> set bins. \<forall>p \<in> set (items b).
           p < length st \<and> 0 < item_width (st ! p) \<and> 0 < item_height (st ! p)"
  shows "\<exists>st' bins'. bottom_left_pack rnd st its bins = Inr (st', bins')
           \<and> (\<forall>b \<in> set bins'. no_overlaps rnd st' b \<and> within_bounds rnd st' b)"
proof -
  have ok: "\<forall>b \<in> set bins. bin_ok rnd st b"
    using assms(3) assms(7) by (simp add: bin_ok_intro)
  have disj: "set its \<inter> placed bins = {}"
    using assms(5) by (auto simp: placed_def)
  have dims: "\<forall>r \<in> set its. r < length st \<and> 0 \<le> item_width (st ! r) \<and> 0 \<le> item_height (st ! r)
           \<and> rnd (item_width (st ! r)) = item_width (st ! r)
           \<and> rnd (item_height (st ! r)) = item_height (st ! r)"
    using assms(6) by (simp add: less_imp_le)
  from bottom_left_pack_sound [OF assms(1) ok assms(2) assms(4) disj dims]
  obtain st' bins' where "bottom_left_pack rnd st its bins = Inr (st', bins')"
    "\<forall>b \<in> set bins'. bin_ok rnd st' b" by blast
  then show ?thesis using bin_ok_properties by blast
qed

text \<open>
  A run with two items side by side and an overflow bin: the items A (3x3), B (2x3) and
  C (3x3) and one 5x5 bin. B goes to (3,0), beside A; C finds no position in the bin and
  goes to the origin of the new bin \<open>bin_2\<close>.
\<close>

lemma side_by_side_run:
  "bottom_left_pack exact [Item ''A'' 3 3, Item ''B'' 2 3, Item ''C'' 3 3] [0, 1, 2]
       [Bin ''bin_1'' 5 5 None]
     = Inr ([Item ''A'' 3 3, set_position (Item ''B'' 2 3) 3 0, Item ''C'' 3 3],
            [(Bin ''bin_1'' 5 5 None)\<lparr>items := [0, 1]\<rparr>, (Bin ''bin_2'' 5 5 None)\<lparr>items := [2]\<rparr>])"
  by code_simp

theorem bottom_left_no_overlap_in_bounds_witness:
  "bottom_left_pack exact [Item ''A'' 3 3, Item ''B'' 2 3, Item ''C'' 3 3] [0, 1, 2]
       [Bin ''bin_1'' 5 5 None]
     = Inr ([Item ''A'' 3 3, set_position (Item ''B'' 2 3) 3 0, Item ''C'' 3 3],
            [(Bin ''bin_1'' 5 5 None)\<lparr>items := [0, 1]\<rparr>, (Bin ''bin_2'' 5 5 None)\<lparr>items := [2]\<rparr>])
   \<and> no_overlaps exact [Item ''A'' 3 3, set_position (Item ''B'' 2 3) 3 0, Item ''C'' 3 3]
        ((Bin ''bin_1'' 5 5 None)\<lparr>items := [0, 1]\<rparr>)
   \<and> within_bounds exact [Item ''A'' 3 3, set_position (Item ''B'' 2 3) 3 0, Item ''C'' 3 3]
        ((Bin ''bin_1'' 5 5 None)\<lparr>items := [0, 1]\<rparr>)
   \<and> no_overlaps exact [Item ''A'' 3 3, set_position (Item ''B'' 2 3) 3 0, Item ''C'' 3 3]
        ((Bin ''bin_2'' 5 5 None)\<lparr>items := [2]\<rparr>)
   \<and> within_bounds exact [Item ''A'' 3 3, set_position (Item ''B'' 2 3) 3 0, Item ''C'' 3 3]
        ((Bin ''bin_2'' 5 5 None)\<lparr>items := [2]\<rparr>)"
proof -
  have h1: "\<forall>a. 0 \<le> a \<longrightarrow> 0 \<le> exact a" by (simp add: exact_def)
  have h2: "[Bin ''bin_1'' 5 5 None] \<noteq> []" by simp
  have h3: "\<forall>b \<in> set [Bin ''bin_1'' 5 5 None].
              no_overlaps exact [Item ''A'' 3 3, Item ''B'' 2 3, Item ''C'' 3 3] b
              \<and> within_bounds exact [Item ''A'' 3 3, Item ''B'' 2 3, Item ''C'' 3 3] b"
    by (simp add: Bin_def no_overlaps_def within_bounds_def)
  have h4: "distinct [0, 1, 2 :: nat]" by simp
  have h5: "\<forall>b \<in> set [Bin ''bin_1'' 5 5 None]. set [0, 1, 2] \<inter> set (items b) = {}"
    by (simp add: Bin_def)
  have h6: "\<forall>r \<in> set [0, 1, 2].
              r < length [Item ''A'' 3 3, Item ''B'' 2 3, Item ''C'' 3 3]
              \<and> 0 < item_width ([Item ''A'' 3 3, Item ''B'' 2 3, Item ''C'' 3 3] ! r)
              \<and> 0 < item_height ([Item ''A'' 3 3, Item ''B'' 2 3, Item ''C'' 3 3] ! r)
              \<and> exact (item_width ([Item ''A'' 3 3, Item ''B'' 2 3, Item ''C'' 3 3] ! r))
                  = item_width ([Item ''A'' 3 3, Item ''B'' 2 3, Item ''C'' 3 3] ! r)
              \<and> exact (item_height ([Item ''A'' 3 3, Item ''B'' 2 3, Item ''C'' 3 3] ! r))
                  = item_height ([Item ''A'' 3 3, Item ''B'' 2 3, Item ''C'' 3 3] ! r)"
    by (simp add: Item_def exact_def)
  have h7: "\<forall>b \<in> set [Bin ''bin_1'' 5 5 None]. \<forall>p \<in> set (items b).
              p < length [Item ''A'' 3 3, Item ''B'' 2 3, Item ''C'' 3 3]
              \<and> 0 < item_width ([Item ''A'' 3 3, Item ''B'' 2 3, Item ''C'' 3 3] ! p)
              \<and> 0 < item_height ([Item ''A'' 3 3, Item ''B'' 2 3, Item ''C'' 3 3] ! p)"
    by (simp add: Bin_def)
  from bottom_left_no_overlap_in_bounds [OF h1 h2 h3 h4 h5 h6 h7] side_by_side_run
  show ?thesis by auto
qed

end
